(* ===== verification/Prelude.thy ===== *)
theory Prelude
  imports Main "HOL-Library.Word" "HOL-Library.Sublist" "HOL-Library.Code_Target_Nat"
begin

text \<open>
  The vocabulary the component theories share: machine integers, the result of a computation
  that can fail or panic, big-endian encoding of integers, bounds-checked reads of a byte
  buffer, and the lemmas on these that the components use.

  A Rust \<^verbatim>\<open>Result<T, E>\<close> computed by code that can also panic (an index or a slice out of
  range) is a value of \<open>('e, 'a) outcome\<close>.  A Rust \<^verbatim>\<open>&[u8]\<close> or \<^verbatim>\<open>Vec<u8>\<close> is a list of
  8-bit words, \<^verbatim>\<open>usize\<close> positions in it are \<open>nat\<close> (every buffer is far below the address
  space, so position arithmetic cannot wrap).
\<close>

unbundle bit_operations_syntax

type_synonym u8 = "8 word"
type_synonym u16 = "16 word"
type_synonym u32 = "32 word"
type_synonym bytes = "u8 list"

named_theorems outcome_simps \<open>evaluation of the outcome monad\<close>
named_theorems read_simps \<open>bounds-checked reads inside the buffer\<close>


section \<open>Results that may fail or panic\<close>

datatype ('e, 'a) outcome = Ok 'a | Err 'e | Panic

fun obind :: "('e, 'a) outcome \<Rightarrow> ('a \<Rightarrow> ('e, 'b) outcome) \<Rightarrow> ('e, 'b) outcome" where
  "obind (Ok x) f = f x"
| "obind (Err e) f = Err e"
| "obind Panic f = Panic"

lemmas [outcome_simps] = obind.simps

lemma obind_eq_Ok [simp]: "obind m f = Ok y \<longleftrightarrow> (\<exists>x. m = Ok x \<and> f x = Ok y)"
  by (cases m) auto

lemma obind_eq_Panic: "obind m f = Panic \<longleftrightarrow> m = Panic \<or> (\<exists>x. m = Ok x \<and> f x = Panic)"
  by (cases m) auto

lemma obind_cong [fundef_cong]:
  "m = m' \<Longrightarrow> (\<And>x. m' = Ok x \<Longrightarrow> f x = f' x) \<Longrightarrow> obind m f = obind m' f'"
  by (cases m') auto

text \<open>\<open>to_option\<close> is Rust's \<^verbatim>\<open>.ok()\<close> on a result that did not panic.\<close>

fun is_ok :: "('e, 'a) outcome \<Rightarrow> bool" where
  "is_ok (Ok _) = True"
| "is_ok (Err _) = False"
| "is_ok Panic = False"


section \<open>Big-endian integers\<close>

text \<open>
  \<open>be_bytes n w\<close> are the \<open>n\<close> low bytes of \<open>w\<close>, most significant first: \<^verbatim>\<open>to_be_bytes\<close> for
  \<open>n = 2\<close> on \<open>u16\<close>, \<open>n = 4\<close> on \<open>u32\<close>, and the \<^verbatim>\<open>octets\<close> of an address.  \<open>be_word\<close> is
  \<^verbatim>\<open>from_be_bytes\<close>.
\<close>

fun be_bytes :: "nat \<Rightarrow> 'a::len word \<Rightarrow> bytes" where
  "be_bytes 0 w = []"
| "be_bytes (Suc n) w = be_bytes n (drop_bit 8 w) @ [ucast w]"

definition be_word :: "bytes \<Rightarrow> 'a::len word" where
  "be_word bs = foldl (\<lambda>acc b. push_bit 8 acc OR ucast b) 0 bs"

lemma length_be_bytes [simp]: "length (be_bytes n w) = n"
  by (induction n arbitrary: w) auto

lemma be_word_Nil [simp]: "be_word [] = 0"
  by (simp add: be_word_def)

lemma be_word_snoc: "be_word (bs @ [b]) = push_bit 8 (be_word bs) OR (ucast b :: 'a::len word)"
  by (simp add: be_word_def)

lemma unat_u8_less: "unat (b :: u8) < 256"
proof -
  have "unat b < 2 ^ LENGTH(8)" by (rule unsigned_less)
  then show ?thesis by simp
qed

lemma unat_u16_less: "unat (w :: u16) < 65536"
proof -
  have "unat w < 2 ^ LENGTH(16)" by (rule unsigned_less)
  then show ?thesis by simp
qed

lemma bit_byte: "bit (b :: u8) i \<Longrightarrow> i < 8"
  using bit_imp_le_length [of b i] by simp

lemma bit_be_word: "bit (be_word bs :: 'a::len word) i \<Longrightarrow> i < 8 * length bs"
proof (induction bs arbitrary: i rule: rev_induct)
  case Nil
  then show ?case by simp
next
  case (snoc b bs)
  then show ?case
    by (cases "i < 8") (force simp: be_word_snoc bit_simps dest: bit_byte snoc.IH)+
qed

lemma push_take_drop_bit:
  "push_bit 8 (take_bit (8 * n) (drop_bit 8 w)) OR ucast (ucast w :: u8)
     = take_bit (8 + 8 * n) (w :: 'a::len word)"
proof (rule bit_word_eqI)
  fix i
  assume "i < LENGTH('a)"
  then show "bit (push_bit 8 (take_bit (8 * n) (drop_bit 8 w)) OR ucast (ucast w :: u8)) i
      = bit (take_bit (8 + 8 * n) w) i"
    by (cases "i < 8") (auto simp: bit_simps)
qed

lemma be_word_be_bytes: "(be_word (be_bytes n w) :: 'a::len word) = take_bit (8 * n) w"
  by (induction n arbitrary: w) (simp_all add: be_word_snoc push_take_drop_bit)

lemma be_word_u16 [simp]: "be_word (be_bytes 2 w) = (w :: u16)"
  by (simp add: be_word_be_bytes take_bit_word_eq_self)

lemma be_word_u32 [simp]: "be_word (be_bytes 4 w) = (w :: u32)"
  by (simp add: be_word_be_bytes take_bit_word_eq_self)

lemma be_word_128 [simp]: "be_word (be_bytes 16 w) = (w :: 128 word)"
  by (simp add: be_word_be_bytes take_bit_word_eq_self)

lemma ucast_be_word_snoc:
  "8 \<le> LENGTH('a) \<Longrightarrow> ucast (push_bit 8 (be_word bs) OR (ucast b :: 'a::len word)) = (b :: u8)"
  by (rule bit_word_eqI) (auto simp add: bit_simps)

lemma drop_bit_be_word_snoc:
  "8 + 8 * length bs \<le> LENGTH('a) \<Longrightarrow>
     drop_bit 8 (push_bit 8 (be_word bs)) OR drop_bit 8 (ucast (b :: u8) :: 'a::len word) = be_word bs"
  by (rule bit_word_eqI) (auto simp add: bit_simps dest: bit_byte bit_be_word)

lemma be_bytes_be_word:
  "8 * length bs \<le> LENGTH('a) \<Longrightarrow> be_bytes (length bs) (be_word bs :: 'a::len word) = bs"
  by (induction bs rule: rev_induct)
     (simp_all add: be_word_snoc ucast_be_word_snoc drop_bit_be_word_snoc)

lemma be_bytes_inject: "be_bytes n v = be_bytes n w \<Longrightarrow> LENGTH('a) \<le> 8 * n \<Longrightarrow> v = (w :: 'a::len word)"
proof -
  assume eq: "be_bytes n v = be_bytes n w" and len: "LENGTH('a) \<le> 8 * n"
  from eq have "(be_word (be_bytes n v) :: 'a word) = be_word (be_bytes n w)" by simp
  with len show "v = w" by (simp add: be_word_be_bytes take_bit_word_eq_self)
qed


section \<open>Bounds-checked reads\<close>

text \<open>
  Rust's \<^verbatim>\<open>buf[i]\<close>, \<^verbatim>\<open>u16::from_be_bytes([buf[i], buf[i+1]])\<close> and \<^verbatim>\<open>&buf[a..b]\<close>: a panic
  when a position is out of range, and for a slice also when it starts after its end.
\<close>

definition read_u8 :: "bytes \<Rightarrow> nat \<Rightarrow> ('e, u8) outcome" where
  "read_u8 buf i = (if i < length buf then Ok (buf ! i) else Panic)"

definition read_u16 :: "bytes \<Rightarrow> nat \<Rightarrow> ('e, u16) outcome" where
  "read_u16 buf i = (if i + 1 < length buf then Ok (be_word [buf ! i, buf ! (i + 1)]) else Panic)"

definition read_u32 :: "bytes \<Rightarrow> nat \<Rightarrow> ('e, u32) outcome" where
  "read_u32 buf i =
     (if i + 3 < length buf
      then Ok (be_word [buf ! i, buf ! (i + 1), buf ! (i + 2), buf ! (i + 3)]) else Panic)"

definition slice :: "bytes \<Rightarrow> nat \<Rightarrow> nat \<Rightarrow> ('e, bytes) outcome" where
  "slice buf a b = (if a \<le> b \<and> b \<le> length buf then Ok (take (b - a) (drop a buf)) else Panic)"

lemma read_u8_Ok [read_simps]: "i < length buf \<Longrightarrow> read_u8 buf i = Ok (buf ! i)"
  by (simp add: read_u8_def)

lemma read_u16_Ok [read_simps]:
  "i + 1 < length buf \<Longrightarrow> read_u16 buf i = Ok (be_word [buf ! i, buf ! (i + 1)])"
  by (simp add: read_u16_def)

lemma read_u32_Ok [read_simps]:
  "i + 3 < length buf \<Longrightarrow>
     read_u32 buf i = Ok (be_word [buf ! i, buf ! (i + 1), buf ! (i + 2), buf ! (i + 3)])"
  by (simp add: read_u32_def)

lemma slice_Ok [read_simps]:
  "a \<le> b \<Longrightarrow> b \<le> length buf \<Longrightarrow> slice buf a b = Ok (take (b - a) (drop a buf))"
  by (simp add: slice_def)

lemma read_eq_Panic:
  "read_u8 buf i = Panic \<longleftrightarrow> length buf \<le> i"
  "read_u16 buf i = Panic \<longleftrightarrow> length buf \<le> i + 1"
  "read_u32 buf i = Panic \<longleftrightarrow> length buf \<le> i + 3"
  "slice buf a b = Panic \<longleftrightarrow> b < a \<or> length buf < b"
  by (auto simp: read_u8_def read_u16_def read_u32_def slice_def)

text \<open>
  Reading back what was written: \<open>at buf p bs\<close> says that the bytes \<open>bs\<close> stand at position
  \<open>p\<close> of \<open>buf\<close>.  Writers establish it, readers consume it.
\<close>

definition at :: "bytes \<Rightarrow> nat \<Rightarrow> bytes \<Rightarrow> bool" where
  "at buf p bs \<longleftrightarrow> p + length bs \<le> length buf \<and> take (length bs) (drop p buf) = bs"

lemma at_append_mid [simp]: "at (xs @ bs @ ys) (length xs) bs"
  by (simp add: at_def)

lemma at_append_end [simp]: "at (xs @ bs) (length xs) bs"
  by (simp add: at_def)

lemma at_extend: "at buf p bs \<Longrightarrow> at (buf @ more) p bs"
  by (auto simp: at_def)

lemma at_append_iff: "at buf p (xs @ ys) \<longleftrightarrow> at buf p xs \<and> at buf (p + length xs) ys"
proof -
  have "take (length xs + length ys) (drop p buf)
      = take (length xs) (drop p buf) @ take (length ys) (drop (p + length xs) buf)"
    by (simp add: take_add add.commute)
  then show ?thesis by (auto simp: at_def append_eq_append_conv)
qed

lemma at_length: "at buf p bs \<Longrightarrow> p + length bs \<le> length buf"
  by (simp add: at_def)

lemma at_nth: "at buf p bs \<Longrightarrow> i < length bs \<Longrightarrow> buf ! (p + i) = bs ! i"
  by (metis at_def add_leE nth_drop nth_take)

lemma at_slice: "at buf p bs \<Longrightarrow> slice buf p (p + length bs) = Ok bs"
  by (simp add: at_def slice_def)

lemma at_read_u8: "at buf p [b] \<Longrightarrow> read_u8 buf p = Ok b"
  using at_nth [of buf p "[b]" 0] at_length [of buf p "[b]"] by (simp add: read_u8_def)

lemma at_read_u16: "at buf p (be_bytes 2 w) \<Longrightarrow> read_u16 buf p = Ok w"
proof -
  assume a: "at buf p (be_bytes 2 w)"
  have "[buf ! p, buf ! (p + 1)] = be_bytes 2 w"
    using at_nth [OF a, of 0] at_nth [OF a, of 1]
    by (auto intro: nth_equalityI simp: less_Suc_eq numeral_2_eq_2)
  with at_length [OF a] show ?thesis by (simp add: read_u16_def)
qed

lemma at_read_u32: "at buf p (be_bytes 4 w) \<Longrightarrow> read_u32 buf p = Ok w"
proof -
  assume a: "at buf p (be_bytes 4 w)"
  have "[buf ! p, buf ! (p + 1), buf ! (p + 2), buf ! (p + 3)] = be_bytes 4 w"
  proof (rule nth_equalityI)
    fix i
    assume "i < length [buf ! p, buf ! (p + 1), buf ! (p + 2), buf ! (p + 3)]"
    then have "i = 0 \<or> i = 1 \<or> i = 2 \<or> i = 3" by auto
    then show "[buf ! p, buf ! (p + 1), buf ! (p + 2), buf ! (p + 3)] ! i = be_bytes 4 w ! i"
      using at_nth [OF a, of 0] at_nth [OF a, of 1] at_nth [OF a, of 2] at_nth [OF a, of 3] by auto
  qed simp
  with at_length [OF a] show ?thesis by (simp add: read_u32_def)
qed


section \<open>Invariants of step relations\<close>

locale step_invariant =
  fixes step :: "'s \<Rightarrow> 's \<Rightarrow> bool" and good :: "'s \<Rightarrow> bool"
  assumes step_good: "step s s' \<Longrightarrow> good s \<Longrightarrow> good s'"
begin

lemma steps_good: "step\<^sup>*\<^sup>* s s' \<Longrightarrow> good s \<Longrightarrow> good s'"
  by (induction rule: rtranclp_induct) (auto intro: step_good)

end

text \<open>A relation that every step keeps to and that is a preorder holds between the ends of a run.\<close>

lemma steps_related:
  assumes "step\<^sup>*\<^sup>* s s'" and "\<And>a b. step a b \<Longrightarrow> R a b" and "\<And>a. R a a" and "\<And>a b c. R a b \<Longrightarrow> R b c \<Longrightarrow> R a c"
  shows "R s s'"
  using assms(1) by (induction rule: rtranclp_induct) (blast intro: assms(2-4))+

end
