(* ===== verification/Std_Text.thy ===== *)
theory Std_Text
  imports Prelude
begin

text \<open>
  What the source uses of Rust's text library.  A Rust \<^verbatim>\<open>String\<close> is a sequence of bytes that
  is valid UTF-8; here it is a HOL \<open>string\<close>, whose characters are the bytes (a HOL character
  has eight bits), so \<open>length\<close> is \<^verbatim>\<open>str::len\<close>.  Modelled exactly: \<^verbatim>\<open>String::from_utf8_lossy\<close>
  (the maximal-subpart rule of the standard library), \<^verbatim>\<open>str::split\<close> at a character, \<^verbatim>\<open>join\<close>,
  \<^verbatim>\<open>find('.')\<close> with the rest after it, \<^verbatim>\<open>eq_ignore_ascii_case\<close>.  \<^verbatim>\<open>str::to_lowercase\<close> is in
  the theory \<^verbatim>\<open>Std_Lowercase\<close>.
\<close>

section \<open>Strings as bytes\<close>

definition str_bytes :: "string \<Rightarrow> bytes" where
  "str_bytes s = map of_char s"

definition bytes_str :: "bytes \<Rightarrow> string" where
  "bytes_str bs = map (\<lambda>b. char_of (unat b)) bs"

lemma unat_of_char: "unat (of_char c :: u8) = of_char c"
proof -
  have "(of_char c :: u8) = of_nat (of_char c)" by (simp only: of_nat_of_char)
  then have "unat (of_char c :: u8) = of_char c mod 256" by (simp only: unat_of_nat) simp
  with nat_of_char_less_256 [of c] show ?thesis by simp
qed

lemma char_of_unat_of_char [simp]: "char_of (unat (of_char c :: u8)) = c"
  by (simp only: unat_of_char char_of_char)

lemma of_char_char_of_unat [simp]: "(of_char (char_of (unat b) :: char) :: u8) = b"
proof -
  have "(of_char (char_of (unat b) :: char) :: u8) = of_nat (of_char (char_of (unat b) :: char))"
    by (simp only: of_nat_of_char)
  also have "\<dots> = of_nat (unat b mod 256)" by (simp only: of_char_of)
  also have "\<dots> = b" using unat_u8_less [of b] by simp
  finally show ?thesis .
qed

lemma bytes_str_str_bytes [simp]: "bytes_str (str_bytes s) = s"
  by (simp add: bytes_str_def str_bytes_def o_def)

lemma str_bytes_bytes_str [simp]: "str_bytes (bytes_str bs) = bs"
  by (simp add: bytes_str_def str_bytes_def o_def)

lemma length_str_bytes [simp]: "length (str_bytes s) = length s"
  by (simp add: str_bytes_def)

lemma length_bytes_str [simp]: "length (bytes_str bs) = length bs"
  by (simp add: bytes_str_def)

lemma str_bytes_append [simp]: "str_bytes (s @ t) = str_bytes s @ str_bytes t"
  by (simp add: str_bytes_def)

lemma bytes_str_append [simp]: "bytes_str (s @ t) = bytes_str s @ bytes_str t"
  by (simp add: bytes_str_def)

lemma str_bytes_Nil [simp]: "str_bytes [] = []"
  by (simp add: str_bytes_def)

lemma bytes_str_Nil [simp]: "bytes_str [] = []"
  by (simp add: bytes_str_def)

lemma str_bytes_eq_Nil [simp]: "str_bytes s = [] \<longleftrightarrow> s = []"
  by (simp add: str_bytes_def)

lemma str_bytes_take: "str_bytes (take n s) = take n (str_bytes s)"
  by (simp add: str_bytes_def take_map)


section \<open>Lossy UTF-8 decoding\<close>

definition safe_get :: "bytes \<Rightarrow> nat \<Rightarrow> u8" where
  "safe_get bs i = (if i < length bs then bs ! i else 0)"

definition is_cont :: "u8 \<Rightarrow> bool" where
  "is_cont b \<longleftrightarrow> b AND 0xC0 = 0x80"

text \<open>The second byte of a three- and of a four-byte sequence, given the first.\<close>

definition second3 :: "u8 \<Rightarrow> u8 \<Rightarrow> bool" where
  "second3 b c \<longleftrightarrow>
     (b = 0xE0 \<and> 0xA0 \<le> c \<and> c \<le> 0xBF) \<or> (0xE1 \<le> b \<and> b \<le> 0xEC \<and> 0x80 \<le> c \<and> c \<le> 0xBF) \<or>
     (b = 0xED \<and> 0x80 \<le> c \<and> c \<le> 0x9F) \<or> (0xEE \<le> b \<and> b \<le> 0xEF \<and> 0x80 \<le> c \<and> c \<le> 0xBF)"

definition second4 :: "u8 \<Rightarrow> u8 \<Rightarrow> bool" where
  "second4 b c \<longleftrightarrow>
     (b = 0xF0 \<and> 0x90 \<le> c \<and> c \<le> 0xBF) \<or> (0xF1 \<le> b \<and> b \<le> 0xF3 \<and> 0x80 \<le> c \<and> c \<le> 0xBF) \<or>
     (b = 0xF4 \<and> 0x80 \<le> c \<and> c \<le> 0x8F)"

text \<open>The length of the character a first byte announces (0: no first byte of a character).\<close>

definition utf8_char_width :: "u8 \<Rightarrow> nat" where
  "utf8_char_width b =
     (if b < 0x80 then 1 else if 0xC2 \<le> b \<and> b \<le> 0xDF then 2
      else if 0xE0 \<le> b \<and> b \<le> 0xEF then 3 else if 0xF0 \<le> b \<and> b \<le> 0xF4 then 4 else 0)"

text \<open>
  One step of the decoder at the head of \<open>bs\<close>: whether a well-formed character stands there,
  and how many bytes it has; for an ill-formed one, how many bytes the replacement character
  stands for.
\<close>

definition utf8_chunk :: "bytes \<Rightarrow> bool \<times> nat" where
  "utf8_chunk bs =
     (let b = safe_get bs 0; w = utf8_char_width b in
      if w = 1 then (True, 1)
      else if w = 2 then (if is_cont (safe_get bs 1) then (True, 2) else (False, 1))
      else if w = 3 then
        (if \<not> second3 b (safe_get bs 1) then (False, 1)
         else if is_cont (safe_get bs 2) then (True, 3) else (False, 2))
      else if w = 4 then
        (if \<not> second4 b (safe_get bs 1) then (False, 1)
         else if \<not> is_cont (safe_get bs 2) then (False, 2)
         else if is_cont (safe_get bs 3) then (True, 4) else (False, 3))
      else (False, 1))"

lemma utf8_chunk_pos: "0 < snd (utf8_chunk bs)"
  by (simp add: utf8_chunk_def Let_def)

text \<open>U+FFFD in UTF-8.\<close>

definition replacement :: bytes where
  "replacement = [0xEF, 0xBF, 0xBD]"

function from_utf8_lossy_bytes :: "bytes \<Rightarrow> bytes" where
  "from_utf8_lossy_bytes bs =
     (if bs = [] then []
      else (if fst (utf8_chunk bs) then take (snd (utf8_chunk bs)) bs else replacement)
             @ from_utf8_lossy_bytes (drop (snd (utf8_chunk bs)) bs))"
  by pat_completeness auto
termination
  by (relation "measure length") (auto simp: utf8_chunk_pos)

declare from_utf8_lossy_bytes.simps [simp del]

definition from_utf8_lossy :: "bytes \<Rightarrow> string" where
  "from_utf8_lossy bs = bytes_str (from_utf8_lossy_bytes bs)"

function valid_utf8 :: "bytes \<Rightarrow> bool" where
  "valid_utf8 bs =
     (if bs = [] then True
      else fst (utf8_chunk bs) \<and> valid_utf8 (drop (snd (utf8_chunk bs)) bs))"
  by pat_completeness auto
termination
  by (relation "measure length") (auto simp: utf8_chunk_pos)

declare valid_utf8.simps [simp del]

lemma valid_utf8_Nil [simp]: "valid_utf8 []"
  by (simp add: valid_utf8.simps)

lemma lossy_Nil [simp]: "from_utf8_lossy_bytes [] = []"
  by (simp add: from_utf8_lossy_bytes.simps)

lemma lossy_valid: "valid_utf8 bs \<Longrightarrow> from_utf8_lossy_bytes bs = bs"
proof (induction bs rule: valid_utf8.induct)
  case (1 bs)
  then show ?case
    by (cases "bs = []") (auto simp: valid_utf8.simps [of bs] from_utf8_lossy_bytes.simps [of bs])
qed

lemma from_utf8_lossy_valid [simp]: "valid_utf8 (str_bytes s) \<Longrightarrow> from_utf8_lossy (str_bytes s) = s"
  by (simp add: from_utf8_lossy_def lossy_valid)

text \<open>A well-formed character is recognised whatever follows it.\<close>

lemma not_cont_0: "\<not> is_cont 0" "\<not> second3 b 0" "\<not> second4 b 0"
  by (simp_all add: is_cont_def second3_def second4_def)

lemma safe_get_nonzero: "safe_get bs i \<noteq> 0 \<Longrightarrow> i < length bs"
  by (simp add: safe_get_def split: if_splits)

lemma utf8_chunk_True_length:
  assumes "fst (utf8_chunk bs)" and "bs \<noteq> []"
  shows "snd (utf8_chunk bs) \<le> length bs"
proof -
  have c: "is_cont (safe_get bs i) \<Longrightarrow> i < length bs" for i
    by (rule safe_get_nonzero) (metis not_cont_0(1))
  have "0 < length bs" using assms(2) by simp
  then show ?thesis
    using assms(1) c [of 1] c [of 2] c [of 3]
    by (auto simp: utf8_chunk_def Let_def Suc_le_eq split: if_splits)
qed

lemma utf8_chunk_True_append:
  assumes "fst (utf8_chunk bs)" and "bs \<noteq> []"
  shows "utf8_chunk (take (snd (utf8_chunk bs)) bs @ rest) = utf8_chunk bs"
proof -
  obtain n where n: "utf8_chunk bs = (True, n)" using assms(1) by (cases "utf8_chunk bs") auto
  have g: "safe_get (take n bs @ rest) i = safe_get bs i" if "i < n" for i
    using that utf8_chunk_True_length [OF assms] n by (simp add: safe_get_def nth_append)
  have "utf8_chunk (take n bs @ rest) = (True, n)"
    using n g [of 0] g [of 1] g [of 2] g [of 3]
    by (auto simp: utf8_chunk_def Let_def split: if_splits)
  with n show ?thesis by simp
qed

lemma valid_utf8_chunk_append:
  assumes "fst (utf8_chunk bs)" and "bs \<noteq> []"
  shows "valid_utf8 (take (snd (utf8_chunk bs)) bs @ rest) \<longleftrightarrow> valid_utf8 rest"
proof -
  let ?n = "snd (utf8_chunk bs)"
  have "take ?n bs \<noteq> []" "drop ?n (take ?n bs @ rest) = rest"
    using assms(2) utf8_chunk_pos [of bs] utf8_chunk_True_length [OF assms] by auto
  then show ?thesis
    using utf8_chunk_True_append [OF assms, of rest] assms(1)
    by (simp add: valid_utf8.simps [of "take ?n bs @ rest"])
qed

lemma valid_utf8_append: "valid_utf8 xs \<Longrightarrow> valid_utf8 (xs @ ys) \<longleftrightarrow> valid_utf8 ys"
proof (induction xs rule: valid_utf8.induct)
  case (1 xs)
  show ?case
  proof (cases "xs = []")
    case False
    let ?n = "snd (utf8_chunk xs)"
    from "1.prems" False have ok: "fst (utf8_chunk xs)" and v: "valid_utf8 (drop ?n xs)"
      by (simp_all add: valid_utf8.simps [of xs])
    have "valid_utf8 (drop ?n xs @ ys) \<longleftrightarrow> valid_utf8 ys"
      by (rule "1.IH" [OF False v])
    moreover have "valid_utf8 (take ?n xs @ (drop ?n xs @ ys)) \<longleftrightarrow> valid_utf8 (drop ?n xs @ ys)"
      by (rule valid_utf8_chunk_append [OF ok False])
    ultimately show ?thesis by (metis append.assoc append_take_drop_id)
  qed simp
qed

lemma valid_replacement: "valid_utf8 replacement"
  by (simp add: replacement_def valid_utf8.simps utf8_chunk_def safe_get_def second3_def is_cont_def
      utf8_char_width_def)

lemma valid_lossy: "valid_utf8 (from_utf8_lossy_bytes bs)"
proof (induction bs rule: from_utf8_lossy_bytes.induct)
  case (1 bs)
  then show ?case
    using valid_utf8_append [OF valid_replacement] valid_utf8_chunk_append [of bs]
    by (cases "bs = []") (simp_all add: from_utf8_lossy_bytes.simps [of bs])
qed

lemma valid_from_utf8_lossy: "valid_utf8 (str_bytes (from_utf8_lossy bs))"
  by (simp add: from_utf8_lossy_def valid_lossy)

lemma valid_utf8_ascii: "list_all (\<lambda>b. b < 0x80) bs \<Longrightarrow> valid_utf8 bs"
  by (induction bs) (simp_all add: valid_utf8.simps [of "_ # _"] utf8_chunk_def safe_get_def
      utf8_char_width_def)

lemma length_lossy: "length (from_utf8_lossy_bytes bs) \<le> 3 * length bs"
proof (induction bs rule: from_utf8_lossy_bytes.induct)
  case (1 bs)
  show ?case
  proof (cases "bs = []")
    case False
    have "0 < snd (utf8_chunk bs)" by (rule utf8_chunk_pos)
    moreover have "0 < length bs" using False by simp
    ultimately show ?thesis
      using "1.IH" [OF False] False
      by (auto simp: from_utf8_lossy_bytes.simps [of bs] replacement_def min_def simp del: length_greater_0_conv)
  qed simp
qed

lemma length_from_utf8_lossy: "length (from_utf8_lossy bs) \<le> 3 * length bs"
  by (simp add: from_utf8_lossy_def length_lossy)


section \<open>Splitting and joining\<close>

text \<open>\<^verbatim>\<open>str::split(c)\<close>: always at least one piece; the empty string gives one empty piece.\<close>

fun split_on :: "char \<Rightarrow> string \<Rightarrow> string list" where
  "split_on c [] = [[]]"
| "split_on c (x # xs) =
     (if x = c then [] # split_on c xs
      else (case split_on c xs of [] \<Rightarrow> [[x]] | y # ys \<Rightarrow> (x # y) # ys))"

text \<open>\<^verbatim>\<open>[&str]::join(sep)\<close>.\<close>

fun join :: "string \<Rightarrow> string list \<Rightarrow> string" where
  "join sep [] = []"
| "join sep [x] = x"
| "join sep (x # y # ys) = x @ sep @ join sep (y # ys)"

lemma split_on_nonempty [simp]: "split_on c s \<noteq> []"
  by (induction s) (auto split: list.splits)

lemma join_Cons: "xs \<noteq> [] \<Longrightarrow> join sep (x # xs) = x @ sep @ join sep xs"
  by (cases xs) auto

lemma join_split_on [simp]: "join [c] (split_on c s) = s"
proof (induction s)
  case (Cons x s)
  then show ?case
    by (cases "split_on c s"; cases "tl (split_on c s)") (auto simp: join_Cons)
qed simp

lemma split_on_append: "split_on c (s @ c # t) = split_on c s @ split_on c t"
proof (induction s)
  case (Cons x s)
  obtain y ys where "split_on c s = y # ys" using split_on_nonempty [of c s] by (cases "split_on c s") auto
  with Cons show ?case by simp
qed simp

lemma split_on_no_sep: "c \<notin> set s \<Longrightarrow> split_on c s = [s]"
  by (induction s) auto

lemma split_on_append_sep: "c \<notin> set s \<Longrightarrow> split_on c (s @ c # t) = s # split_on c t"
  by (induction s) auto

lemma split_on_join:
  "ls \<noteq> [] \<Longrightarrow> \<forall>l \<in> set ls. c \<notin> set l \<Longrightarrow> split_on c (join [c] ls) = ls"
proof (induction ls)
  case (Cons l ls)
  then show ?case
    by (cases ls) (simp_all add: split_on_no_sep split_on_append_sep)
qed simp

lemma split_on_pieces: "l \<in> set (split_on c s) \<Longrightarrow> c \<notin> set l"
  by (induction s arbitrary: l) (auto split: list.splits if_splits)

lemma join_inject_on_dotless:
  "ls \<noteq> [] \<Longrightarrow> ms \<noteq> [] \<Longrightarrow> \<forall>l \<in> set ls. c \<notin> set l \<Longrightarrow> \<forall>l \<in> set ms. c \<notin> set l \<Longrightarrow>
     join [c] ls = join [c] ms \<Longrightarrow> ls = ms"
  by (metis split_on_join)

lemma length_join_ge: "l \<in> set ls \<Longrightarrow> length l \<le> length (join sep ls)"
  by (induction sep ls rule: join.induct) auto


section \<open>Finding the first dot\<close>

text \<open>
  \<^verbatim>\<open>if let Some(pos) = s.find('.') { &s[pos + 1..] }\<close>: the text after the first dot, \<open>None\<close>
  without a dot.  The loops of the resolver and of the blocklist walk a name with it.
\<close>

fun after_dot :: "string \<Rightarrow> string option" where
  "after_dot [] = None"
| "after_dot (x # xs) = (if x = CHR ''.'' then Some xs else after_dot xs)"

lemma after_dot_length: "after_dot s = Some t \<Longrightarrow> length t < length s"
  by (induction s) (auto split: if_splits)

lemma after_dot_None_iff: "after_dot s = None \<longleftrightarrow> CHR ''.'' \<notin> set s"
  by (induction s) auto

lemma after_dot_Some_iff:
  "after_dot s = Some t \<longleftrightarrow> (\<exists>u. s = u @ CHR ''.'' # t \<and> CHR ''.'' \<notin> set u)"
proof (induction s)
  case (Cons x s)
  show ?case
  proof (cases "x = CHR ''.''")
    case True
    have "(\<exists>u. x # s = u @ CHR ''.'' # t \<and> CHR ''.'' \<notin> set u) \<longleftrightarrow> s = t"
    proof
      assume "\<exists>u. x # s = u @ CHR ''.'' # t \<and> CHR ''.'' \<notin> set u"
      then obtain u where "x # s = u @ CHR ''.'' # t" "CHR ''.'' \<notin> set u" by blast
      with True show "s = t" by (cases u) auto
    next
      assume "s = t"
      with True show "\<exists>u. x # s = u @ CHR ''.'' # t \<and> CHR ''.'' \<notin> set u"
        by (intro exI [of _ "[]"]) simp
    qed
    with True show ?thesis by simp
  next
    case False
    have "(\<exists>u. x # s = u @ CHR ''.'' # t \<and> CHR ''.'' \<notin> set u)
        \<longleftrightarrow> (\<exists>u. s = u @ CHR ''.'' # t \<and> CHR ''.'' \<notin> set u)"
      using False by (auto simp: Cons_eq_append_conv)
    with False Cons show ?thesis by simp
  qed
qed simp

text \<open>A name \<open>s\<close> lies properly below \<open>t\<close> when it ends in a dot and \<open>t\<close>.\<close>

definition below :: "string \<Rightarrow> string \<Rightarrow> bool" where
  "below s t \<longleftrightarrow> suffix (CHR ''.'' # t) s"

lemma below_iff: "below s t \<longleftrightarrow> (\<exists>u. s = u @ CHR ''.'' # t)"
  by (auto simp: below_def suffix_def)

lemma below_after_dot:
  "below s t \<longleftrightarrow> (\<exists>r. after_dot s = Some r \<and> (t = r \<or> below r t))"
proof
  assume "below s t"
  then obtain u where u: "s = u @ CHR ''.'' # t" by (auto simp: below_iff)
  show "\<exists>r. after_dot s = Some r \<and> (t = r \<or> below r t)"
  proof (cases "after_dot s")
    case None
    with u show ?thesis by (simp add: after_dot_None_iff)
  next
    case (Some r)
    then obtain v where v: "s = v @ CHR ''.'' # r" "CHR ''.'' \<notin> set v"
      by (auto simp: after_dot_Some_iff)
    from u v(1) have "u @ CHR ''.'' # t = v @ CHR ''.'' # r" by simp
    then have "t = r \<or> below r t"
      using v(2) by (auto simp: append_eq_append_conv2 Cons_eq_append_conv append_eq_Cons_conv below_iff)
    with Some show ?thesis by simp
  qed
next
  assume "\<exists>r. after_dot s = Some r \<and> (t = r \<or> below r t)"
  then obtain r where "after_dot s = Some r" and "t = r \<or> below r t" by blast
  then show "below s t" by (auto simp: after_dot_Some_iff below_iff)
qed

text \<open>\<^verbatim>\<open>str::trim_end_matches\<close> of a dot.\<close>

definition trim_end_dots :: "string \<Rightarrow> string" where
  "trim_end_dots s = rev (dropWhile (\<lambda>c. c = CHR ''.'') (rev s))"

lemma below_trans: "below s t \<Longrightarrow> below t u \<Longrightarrow> below s u"
  by (auto simp: below_iff)

lemma below_length: "below s t \<Longrightarrow> length t < length s"
  by (auto simp: below_iff)


section \<open>ASCII case\<close>

definition ascii_lower :: "char \<Rightarrow> char" where
  "ascii_lower c =
     (if 65 \<le> (of_char c :: nat) \<and> (of_char c :: nat) \<le> 90 then char_of ((of_char c :: nat) + 32) else c)"

definition eq_ignore_ascii_case :: "string \<Rightarrow> string \<Rightarrow> bool" where
  "eq_ignore_ascii_case s t \<longleftrightarrow> map ascii_lower s = map ascii_lower t"

lemma of_char_char_of_nat: "n < 256 \<Longrightarrow> of_char (char_of (n :: nat)) = n"
  by simp

lemma ascii_lower_idem [simp]: "ascii_lower (ascii_lower c) = ascii_lower c"
  by (simp add: ascii_lower_def of_char_char_of_nat)

end
