(* ===== verification/Dns_Record.thy ===== *)
theory Dns_Record
  imports Std_Lowercase
begin

text \<open>
  The DNS message data of \<^verbatim>\<open>src/dns\<close>: resource records (\<^verbatim>\<open>record.rs\<close>), the header
  (\<^verbatim>\<open>header.rs\<close>), a question (\<^verbatim>\<open>question.rs\<close>), the wire-parsing errors (\<^verbatim>\<open>error.rs\<close>) and the
  packet (\<^verbatim>\<open>packet.rs\<close>).  An IPv4 address is its 32 bits and an IPv6 address its 128 bits; their
  octets are the big-endian bytes.
\<close>

section \<open>Resource records\<close>

type_synonym ipv4 = "32 word"
type_synonym ipv6 = "128 word"

abbreviation octets4 :: "ipv4 \<Rightarrow> bytes" where
  "octets4 a \<equiv> be_bytes 4 a"

abbreviation octets6 :: "ipv6 \<Rightarrow> bytes" where
  "octets6 a \<equiv> be_bytes 16 a"

datatype dns_record =
    A string ipv4 u32
      \<comment> \<open>domain, addr, ttl\<close>
  | AAAA string ipv6 u32
      \<comment> \<open>domain, addr, ttl\<close>
  | CNAME string string u32
      \<comment> \<open>domain, alias, ttl\<close>
  | MX string u16 string u32
      \<comment> \<open>domain, preference, exchange, ttl\<close>
  | TXT string string u32
      \<comment> \<open>domain, text, ttl\<close>
  | NS string string u32
      \<comment> \<open>domain, nameserver, ttl\<close>
  | SOA string string string u32 u32 u32 u32 u32 u32
      \<comment> \<open>domain, mname, rname, serial, refresh, retry, expire, minimum, ttl\<close>
  | SRV string u16 u16 u16 string u32
      \<comment> \<open>domain, priority, weight, port, target, ttl\<close>
  | PTR string string u32
      \<comment> \<open>domain, ptrdname, ttl\<close>
  | CAA string u8 string string u32
      \<comment> \<open>domain, flags, tag, value, ttl\<close>
  | OPT u16
      \<comment> \<open>udp\_size\<close>
  | DNSKEY string u16 u8 u8 bytes u32
      \<comment> \<open>domain, flags, protocol, algorithm, public\_key, ttl\<close>
  | RRSIG string u16 u8 u8 u32 u32 u32 u16 string bytes u32
      \<comment> \<open>domain, type\_covered, algorithm, labels, original\_ttl, signature\_expiration,
           signature\_inception, key\_tag, signer\_name, signature, ttl\<close>
  | DS string u16 u8 u8 bytes u32
      \<comment> \<open>domain, key\_tag, algorithm, digest\_type, digest, ttl\<close>
  | NSEC string string bytes u32
      \<comment> \<open>domain, next\_name, type\_bitmap, ttl\<close>

definition TYPE_A :: u16 where "TYPE_A = 1"
definition TYPE_NS :: u16 where "TYPE_NS = 2"
definition TYPE_CNAME :: u16 where "TYPE_CNAME = 5"
definition TYPE_SOA :: u16 where "TYPE_SOA = 6"
definition TYPE_MX :: u16 where "TYPE_MX = 15"
definition TYPE_TXT :: u16 where "TYPE_TXT = 16"
definition TYPE_AAAA :: u16 where "TYPE_AAAA = 28"
definition TYPE_PTR :: u16 where "TYPE_PTR = 12"
definition TYPE_SRV :: u16 where "TYPE_SRV = 33"
definition TYPE_OPT :: u16 where "TYPE_OPT = 41"
definition TYPE_DS :: u16 where "TYPE_DS = 43"
definition TYPE_RRSIG :: u16 where "TYPE_RRSIG = 46"
definition TYPE_NSEC :: u16 where "TYPE_NSEC = 47"
definition TYPE_DNSKEY :: u16 where "TYPE_DNSKEY = 48"
definition TYPE_CAA :: u16 where "TYPE_CAA = 257"
definition TYPE_AXFR :: u16 where "TYPE_AXFR = 252"
definition TYPE_IXFR :: u16 where "TYPE_IXFR = 251"

lemmas type_codes =
  TYPE_A_def TYPE_NS_def TYPE_CNAME_def TYPE_SOA_def TYPE_MX_def TYPE_TXT_def TYPE_AAAA_def
  TYPE_PTR_def TYPE_SRV_def TYPE_OPT_def TYPE_DS_def TYPE_RRSIG_def TYPE_NSEC_def TYPE_DNSKEY_def
  TYPE_CAA_def TYPE_AXFR_def TYPE_IXFR_def

fun record_type :: "dns_record \<Rightarrow> u16" where
  "record_type (A _ _ _) = TYPE_A"
| "record_type (AAAA _ _ _) = TYPE_AAAA"
| "record_type (CNAME _ _ _) = TYPE_CNAME"
| "record_type (MX _ _ _ _) = TYPE_MX"
| "record_type (TXT _ _ _) = TYPE_TXT"
| "record_type (NS _ _ _) = TYPE_NS"
| "record_type (SOA _ _ _ _ _ _ _ _ _) = TYPE_SOA"
| "record_type (SRV _ _ _ _ _ _) = TYPE_SRV"
| "record_type (PTR _ _ _) = TYPE_PTR"
| "record_type (CAA _ _ _ _ _) = TYPE_CAA"
| "record_type (OPT _) = TYPE_OPT"
| "record_type (DNSKEY _ _ _ _ _ _) = TYPE_DNSKEY"
| "record_type (RRSIG _ _ _ _ _ _ _ _ _ _ _) = TYPE_RRSIG"
| "record_type (DS _ _ _ _ _ _) = TYPE_DS"
| "record_type (NSEC _ _ _ _) = TYPE_NSEC"

fun ttl :: "dns_record \<Rightarrow> u32" where
  "ttl (A _ _ t) = t"
| "ttl (AAAA _ _ t) = t"
| "ttl (CNAME _ _ t) = t"
| "ttl (MX _ _ _ t) = t"
| "ttl (TXT _ _ t) = t"
| "ttl (NS _ _ t) = t"
| "ttl (SOA _ _ _ _ _ _ _ _ t) = t"
| "ttl (SRV _ _ _ _ _ t) = t"
| "ttl (PTR _ _ t) = t"
| "ttl (CAA _ _ _ _ t) = t"
| "ttl (DNSKEY _ _ _ _ _ t) = t"
| "ttl (RRSIG _ _ _ _ _ _ _ _ _ _ t) = t"
| "ttl (DS _ _ _ _ _ t) = t"
| "ttl (NSEC _ _ _ t) = t"
| "ttl (OPT _) = 0"

fun domain :: "dns_record \<Rightarrow> string" where
  "domain (A d _ _) = d"
| "domain (AAAA d _ _) = d"
| "domain (CNAME d _ _) = d"
| "domain (MX d _ _ _) = d"
| "domain (TXT d _ _) = d"
| "domain (NS d _ _) = d"
| "domain (SOA d _ _ _ _ _ _ _ _) = d"
| "domain (SRV d _ _ _ _ _) = d"
| "domain (PTR d _ _) = d"
| "domain (CAA d _ _ _ _) = d"
| "domain (DNSKEY d _ _ _ _ _) = d"
| "domain (RRSIG d _ _ _ _ _ _ _ _ _ _) = d"
| "domain (DS d _ _ _ _ _) = d"
| "domain (NSEC d _ _ _) = d"
| "domain (OPT _) = []"

fun with_domain :: "dns_record \<Rightarrow> string \<Rightarrow> dns_record" where
  "with_domain (A _ a t) d = A d a t"
| "with_domain (AAAA _ a t) d = AAAA d a t"
| "with_domain (CNAME _ a t) d = CNAME d a t"
| "with_domain (MX _ p e t) d = MX d p e t"
| "with_domain (TXT _ x t) d = TXT d x t"
| "with_domain (NS _ n t) d = NS d n t"
| "with_domain (SOA _ m r s f y e i t) d = SOA d m r s f y e i t"
| "with_domain (SRV _ p w q g t) d = SRV d p w q g t"
| "with_domain (PTR _ p t) d = PTR d p t"
| "with_domain (CAA _ f g v t) d = CAA d f g v t"
| "with_domain (DNSKEY _ f p a k t) d = DNSKEY d f p a k t"
| "with_domain (RRSIG _ c a l q e i k n s t) d = RRSIG d c a l q e i k n s t"
| "with_domain (DS _ k a g b t) d = DS d k a g b t"
| "with_domain (NSEC _ n b t) d = NSEC d n b t"
| "with_domain (OPT u) d = OPT u"

fun is_soa :: "dns_record \<Rightarrow> bool" where
  "is_soa (SOA _ _ _ _ _ _ _ _ _) = True"
| "is_soa _ = False"

fun is_opt :: "dns_record \<Rightarrow> bool" where
  "is_opt (OPT _) = True"
| "is_opt _ = False"

lemma record_type_with_domain [simp]: "record_type (with_domain r d) = record_type r"
  by (cases r) auto

lemma ttl_with_domain [simp]: "ttl (with_domain r d) = ttl r"
  by (cases r) auto

lemma domain_with_domain [simp]: "\<not> is_opt r \<Longrightarrow> domain (with_domain r d) = d"
  by (cases r) auto

lemma with_domain_with_domain [simp]: "with_domain (with_domain r d) e = with_domain r e"
  by (cases r) auto

lemma is_soa_iff_type: "is_soa r \<longleftrightarrow> record_type r = TYPE_SOA"
  by (cases r) (auto simp: type_codes)

lemma is_opt_iff_type: "is_opt r \<longleftrightarrow> record_type r = TYPE_OPT"
  by (cases r) (auto simp: type_codes)


section \<open>Header, question, packet, errors\<close>

text \<open>
  The header's counts and the packet's sections have the same names in the source; the header's
  fields carry the prefix \<open>h_\<close> here.
\<close>

record dns_header =
  h_id :: u16
  h_flags :: u16
  h_questions :: u16
  h_answers :: u16
  h_authorities :: u16
  h_additionals :: u16

record dns_question =
  qname :: string
  qtype :: u16
  qclass :: u16

record dns_packet =
  header :: dns_header
  questions :: "dns_question list"
  answers :: "dns_record list"
  authorities :: "dns_record list"
  additionals :: "dns_record list"

datatype dns_error =
    Truncated string
  | InvalidRdata u16
  | PointerLoop

type_synonym 'a dns_result = "(dns_error, 'a) outcome"

definition MAX_UDP_SIZE :: nat where "MAX_UDP_SIZE = 512"
definition MAX_EDNS_UDP :: nat where "MAX_EDNS_UDP = 1232"

text \<open>\<^verbatim>\<open>find_map\<close> over a list.\<close>

fun find_map :: "('a \<Rightarrow> 'b option) \<Rightarrow> 'a list \<Rightarrow> 'b option" where
  "find_map f [] = None"
| "find_map f (x # xs) = (case f x of None \<Rightarrow> find_map f xs | Some y \<Rightarrow> Some y)"

fun opt_size :: "dns_record \<Rightarrow> u16 option" where
  "opt_size (OPT s) = Some s"
| "opt_size _ = None"

definition edns_udp_size :: "dns_packet \<Rightarrow> u16 option" where
  "edns_udp_size p = find_map opt_size (additionals p)"

lemma find_map_None_iff: "find_map f xs = None \<longleftrightarrow> (\<forall>x \<in> set xs. f x = None)"
  by (induction xs) (auto split: option.splits)

lemma find_map_SomeD: "find_map f xs = Some y \<Longrightarrow> \<exists>x \<in> set xs. f x = Some y"
  by (induction xs) (auto split: option.splits)

lemma opt_size_None_iff: "opt_size r = None \<longleftrightarrow> \<not> is_opt r"
  by (cases r) auto

lemma edns_udp_size_None_iff: "edns_udp_size p = None \<longleftrightarrow> (\<forall>r \<in> set (additionals p). \<not> is_opt r)"
  by (simp add: edns_udp_size_def find_map_None_iff opt_size_None_iff)

end
