(* ===== verification/Decoder.thy ===== *)
theory Decoder
  imports Dns_Record
begin

text \<open>
  The wire parser of \<^verbatim>\<open>src/dns/packet.rs\<close>: \<^verbatim>\<open>parse_qname\<close>, \<^verbatim>\<open>parse_character_strings\<close>,
  \<^verbatim>\<open>parse_record\<close> (one definition per record type of its \<^verbatim>\<open>match\<close>) and \<^verbatim>\<open>from_bytes\<close>.  Every read
  of the buffer goes through the bounds-checked reads of the prelude, so an index or a slice
  that is out of range is the outcome \<open>Panic\<close>.

  The lemmas give the bounds of a parsed name, that parsing always makes progress, and where a
  panic can come from.
\<close>

section \<open>Names\<close>

definition MAX_POINTER_JUMPS :: nat where "MAX_POINTER_JUMPS = 64"

text \<open>
  The loop of \<^verbatim>\<open>parse_qname\<close>.  Every iteration either follows a pointer, at most
  \<open>MAX_POINTER_JUMPS\<close> times, or moves forward inside the buffer.
\<close>

function parse_qname_loop ::
    "bytes \<Rightarrow> nat \<Rightarrow> string \<Rightarrow> bool \<Rightarrow> nat \<Rightarrow> nat \<Rightarrow> (string \<times> nat) dns_result" where
  "parse_qname_loop buf current nm jumped end_offset jumps =
     (if length buf \<le> current then Err (Truncated ''qname label length'')
      else let len = buf ! current in
      if len AND 0b11000000 \<noteq> 0 then
        (if length buf \<le> current + 1 then Err (Truncated ''compression pointer'')
         else if MAX_POINTER_JUMPS < jumps + 1 then Err PointerLoop
         else parse_qname_loop buf
                (unat (be_word [buf ! current AND 0x3F, buf ! (current + 1)] :: u16))
                nm True (if jumped then end_offset else current + 2) (jumps + 1))
      else if len = 0 then Ok (nm, if jumped then end_offset else current + 1)
      else if length buf < current + 1 + unat len then Err (Truncated ''qname label'')
      else parse_qname_loop buf (current + 1 + unat len)
             (nm @ from_utf8_lossy (take (unat len) (drop (current + 1) buf)) @ ''.'')
             jumped end_offset jumps)"
  by pat_completeness auto
termination
  by (relation "measures [\<lambda>(buf, current, nm, jumped, end_offset, jumps). MAX_POINTER_JUMPS - jumps,
                          \<lambda>(buf, current, nm, jumped, end_offset, jumps). length buf - current]")
     auto

declare parse_qname_loop.simps [simp del]

definition parse_qname :: "bytes \<Rightarrow> nat \<Rightarrow> (string \<times> nat) dns_result" where
  "parse_qname buf offset =
     obind (parse_qname_loop buf offset [] False 0 0) (\<lambda>(nm, end_offset).
       Ok (if nm \<noteq> [] \<and> last nm = CHR ''.'' then butlast nm else nm, end_offset))"


section \<open>TXT data\<close>

function parse_character_strings_loop :: "bytes \<Rightarrow> nat \<Rightarrow> string \<Rightarrow> string dns_result" where
  "parse_character_strings_loop data i text =
     (if i < length data then
        (let len = unat (data ! i) in
         if length data < i + 1 + len then Err (Truncated ''TXT character-string'')
         else parse_character_strings_loop data (i + 1 + len)
                (text @ from_utf8_lossy (take len (drop (i + 1) data))))
      else Ok text)"
  by pat_completeness auto
termination
  by (relation "measure (\<lambda>(data, i, text). length data - i)") auto

declare parse_character_strings_loop.simps [simp del]

definition parse_character_strings :: "bytes \<Rightarrow> string dns_result" where
  "parse_character_strings data = parse_character_strings_loop data 0 []"


section \<open>Record data, by type\<close>

text \<open>
  The arms of the \<^verbatim>\<open>match\<close> in \<^verbatim>\<open>parse_record\<close>.  \<open>start\<close> is \<^verbatim>\<open>record_data_start\<close> and \<open>n\<close> is
  \<^verbatim>\<open>data_len\<close>; the caller has checked \<open>start + n \<le> length buf\<close>.
\<close>

definition parse_a :: "bytes \<Rightarrow> string \<Rightarrow> u32 \<Rightarrow> nat \<Rightarrow> nat \<Rightarrow> dns_record dns_result" where
  "parse_a buf owner t start n =
     (if n \<noteq> 4 then Err (InvalidRdata TYPE_A)
      else obind (read_u32 buf start) (\<lambda>addr. Ok (A owner addr t)))"

definition parse_aaaa :: "bytes \<Rightarrow> string \<Rightarrow> u32 \<Rightarrow> nat \<Rightarrow> nat \<Rightarrow> dns_record dns_result" where
  "parse_aaaa buf owner t start n =
     (if n \<noteq> 16 then Err (InvalidRdata TYPE_AAAA)
      else obind (slice buf start (start + 16)) (\<lambda>octets. Ok (AAAA owner (be_word octets) t)))"

definition parse_cname :: "bytes \<Rightarrow> string \<Rightarrow> u32 \<Rightarrow> nat \<Rightarrow> dns_record dns_result" where
  "parse_cname buf owner t start =
     obind (parse_qname buf start) (\<lambda>(alias, _). Ok (CNAME owner alias t))"

definition parse_mx :: "bytes \<Rightarrow> string \<Rightarrow> u32 \<Rightarrow> nat \<Rightarrow> nat \<Rightarrow> dns_record dns_result" where
  "parse_mx buf owner t start n =
     (if n < 3 then Err (InvalidRdata TYPE_MX)
      else obind (read_u16 buf start) (\<lambda>preference.
        obind (parse_qname buf (start + 2)) (\<lambda>(exchange, _). Ok (MX owner preference exchange t))))"

definition parse_txt :: "bytes \<Rightarrow> string \<Rightarrow> u32 \<Rightarrow> nat \<Rightarrow> nat \<Rightarrow> dns_record dns_result" where
  "parse_txt buf owner t start n =
     obind (slice buf start (start + n)) (\<lambda>data.
       obind (parse_character_strings data) (\<lambda>txt. Ok (TXT owner txt t)))"

definition parse_ns :: "bytes \<Rightarrow> string \<Rightarrow> u32 \<Rightarrow> nat \<Rightarrow> dns_record dns_result" where
  "parse_ns buf owner t start =
     obind (parse_qname buf start) (\<lambda>(nameserver, _). Ok (NS owner nameserver t))"

definition parse_soa :: "bytes \<Rightarrow> string \<Rightarrow> u32 \<Rightarrow> nat \<Rightarrow> dns_record dns_result" where
  "parse_soa buf owner t start =
     obind (parse_qname buf start) (\<lambda>(mname, after_mname).
     obind (parse_qname buf after_mname) (\<lambda>(rname, after_rname).
       if length buf < after_rname + 20 then Err (Truncated ''SOA record'')
       else
         obind (read_u32 buf after_rname) (\<lambda>serial.
         obind (read_u32 buf (after_rname + 4)) (\<lambda>refresh.
         obind (read_u32 buf (after_rname + 8)) (\<lambda>retry.
         obind (read_u32 buf (after_rname + 12)) (\<lambda>expire.
         obind (read_u32 buf (after_rname + 16)) (\<lambda>minimum.
           Ok (SOA owner mname rname serial refresh retry expire minimum t))))))))"

definition parse_srv :: "bytes \<Rightarrow> string \<Rightarrow> u32 \<Rightarrow> nat \<Rightarrow> nat \<Rightarrow> dns_record dns_result" where
  "parse_srv buf owner t start n =
     (if n < 6 then Err (InvalidRdata TYPE_SRV)
      else
        obind (read_u16 buf start) (\<lambda>priority.
        obind (read_u16 buf (start + 2)) (\<lambda>weight.
        obind (read_u16 buf (start + 4)) (\<lambda>port.
        obind (parse_qname buf (start + 6)) (\<lambda>(target, _).
          Ok (SRV owner priority weight port target t))))))"

definition parse_ptr :: "bytes \<Rightarrow> string \<Rightarrow> u32 \<Rightarrow> nat \<Rightarrow> dns_record dns_result" where
  "parse_ptr buf owner t start =
     obind (parse_qname buf start) (\<lambda>(ptrdname, _). Ok (PTR owner ptrdname t))"

definition parse_caa :: "bytes \<Rightarrow> string \<Rightarrow> u32 \<Rightarrow> nat \<Rightarrow> nat \<Rightarrow> dns_record dns_result" where
  "parse_caa buf owner t start n =
     (if n < 2 then Err (InvalidRdata TYPE_CAA)
      else
        obind (read_u8 buf start) (\<lambda>flags.
        obind (read_u8 buf (start + 1)) (\<lambda>tag_len8.
          let tag_len = unat tag_len8; tag_start = start + 2 in
          if n < 2 + tag_len then Err (InvalidRdata TYPE_CAA)
          else
            obind (slice buf tag_start (tag_start + tag_len)) (\<lambda>tag.
            obind (slice buf (tag_start + tag_len) (start + n)) (\<lambda>value.
              Ok (CAA owner flags (from_utf8_lossy tag) (from_utf8_lossy value) t))))))"

definition parse_dnskey :: "bytes \<Rightarrow> string \<Rightarrow> u32 \<Rightarrow> nat \<Rightarrow> nat \<Rightarrow> dns_record dns_result" where
  "parse_dnskey buf owner t start n =
     (if n < 4 then Err (InvalidRdata TYPE_DNSKEY)
      else
        obind (read_u16 buf start) (\<lambda>flags.
        obind (read_u8 buf (start + 2)) (\<lambda>protocol.
        obind (read_u8 buf (start + 3)) (\<lambda>algorithm.
        obind (slice buf (start + 4) (start + n)) (\<lambda>public_key.
          Ok (DNSKEY owner flags protocol algorithm public_key t))))))"

definition parse_rrsig :: "bytes \<Rightarrow> string \<Rightarrow> u32 \<Rightarrow> nat \<Rightarrow> nat \<Rightarrow> dns_record dns_result" where
  "parse_rrsig buf owner t start n =
     (if n < 18 then Err (InvalidRdata TYPE_RRSIG)
      else
        obind (read_u16 buf start) (\<lambda>type_covered.
        obind (read_u8 buf (start + 2)) (\<lambda>algorithm.
        obind (read_u8 buf (start + 3)) (\<lambda>labels.
        obind (read_u32 buf (start + 4)) (\<lambda>original_ttl.
        obind (read_u32 buf (start + 8)) (\<lambda>signature_expiration.
        obind (read_u32 buf (start + 12)) (\<lambda>signature_inception.
        obind (read_u16 buf (start + 16)) (\<lambda>key_tag.
        obind (parse_qname buf (start + 18)) (\<lambda>(signer_name, after_signer).
        obind (slice buf after_signer (start + n)) (\<lambda>signature.
          Ok (RRSIG owner type_covered algorithm labels original_ttl signature_expiration
                signature_inception key_tag signer_name signature t)))))))))))"

definition parse_ds :: "bytes \<Rightarrow> string \<Rightarrow> u32 \<Rightarrow> nat \<Rightarrow> nat \<Rightarrow> dns_record dns_result" where
  "parse_ds buf owner t start n =
     (if n < 4 then Err (InvalidRdata TYPE_DS)
      else
        obind (read_u16 buf start) (\<lambda>key_tag.
        obind (read_u8 buf (start + 2)) (\<lambda>algorithm.
        obind (read_u8 buf (start + 3)) (\<lambda>digest_type.
        obind (slice buf (start + 4) (start + n)) (\<lambda>digest.
          Ok (DS owner key_tag algorithm digest_type digest t))))))"

definition parse_nsec :: "bytes \<Rightarrow> string \<Rightarrow> u32 \<Rightarrow> nat \<Rightarrow> nat \<Rightarrow> dns_record dns_result" where
  "parse_nsec buf owner t start n =
     obind (parse_qname buf start) (\<lambda>(next_name, after_name).
     obind (slice buf after_name (start + n)) (\<lambda>type_bitmap.
       Ok (NSEC owner next_name type_bitmap t)))"

text \<open>The \<^verbatim>\<open>match record_type\<close> itself; \<open>None\<close> for a type the server does not model.\<close>

definition parse_rdata ::
    "bytes \<Rightarrow> u16 \<Rightarrow> u16 \<Rightarrow> string \<Rightarrow> u32 \<Rightarrow> nat \<Rightarrow> nat \<Rightarrow> dns_record option dns_result" where
  "parse_rdata buf rtype class owner t start n =
     (let some = (\<lambda>r. obind r (\<lambda>x. Ok (Some x))) in
      if rtype = TYPE_A then some (parse_a buf owner t start n)
      else if rtype = TYPE_AAAA then some (parse_aaaa buf owner t start n)
      else if rtype = TYPE_CNAME then some (parse_cname buf owner t start)
      else if rtype = TYPE_MX then some (parse_mx buf owner t start n)
      else if rtype = TYPE_TXT then some (parse_txt buf owner t start n)
      else if rtype = TYPE_NS then some (parse_ns buf owner t start)
      else if rtype = TYPE_SOA then some (parse_soa buf owner t start)
      else if rtype = TYPE_SRV then some (parse_srv buf owner t start n)
      else if rtype = TYPE_PTR then some (parse_ptr buf owner t start)
      else if rtype = TYPE_CAA then some (parse_caa buf owner t start n)
      else if rtype = TYPE_OPT then Ok (Some (OPT class))
      else if rtype = TYPE_DNSKEY then some (parse_dnskey buf owner t start n)
      else if rtype = TYPE_RRSIG then some (parse_rrsig buf owner t start n)
      else if rtype = TYPE_DS then some (parse_ds buf owner t start n)
      else if rtype = TYPE_NSEC then some (parse_nsec buf owner t start n)
      else Ok None)"

definition parse_record :: "bytes \<Rightarrow> nat \<Rightarrow> (dns_record option \<times> nat) dns_result" where
  "parse_record buf offset =
     obind (parse_qname buf offset) (\<lambda>(owner, new_offset).
       if length buf < new_offset + 10 then Err (Truncated ''record header'')
       else
         obind (read_u16 buf new_offset) (\<lambda>rtype.
         obind (read_u16 buf (new_offset + 2)) (\<lambda>class.
         obind (read_u32 buf (new_offset + 4)) (\<lambda>t.
         obind (read_u16 buf (new_offset + 8)) (\<lambda>data_len.
           let start = new_offset + 10; n = unat data_len in
           if length buf < start + n then Err (Truncated ''record data'')
           else obind (parse_rdata buf rtype class owner t start n) (\<lambda>r. Ok (r, start + n)))))))"


section \<open>The packet\<close>

fun parse_questions :: "bytes \<Rightarrow> nat \<Rightarrow> nat \<Rightarrow> (dns_question list \<times> nat) dns_result" where
  "parse_questions buf 0 offset = Ok ([], offset)"
| "parse_questions buf (Suc k) offset =
     obind (parse_qname buf offset) (\<lambda>(name, new_offset).
       if length buf < new_offset + 4 then Err (Truncated ''question'')
       else
         obind (read_u16 buf new_offset) (\<lambda>ty.
         obind (read_u16 buf (new_offset + 2)) (\<lambda>cl.
         obind (parse_questions buf k (new_offset + 4)) (\<lambda>(qs, end_offset).
           Ok (\<lparr>qname = name, qtype = ty, qclass = cl\<rparr> # qs, end_offset)))))"

fun parse_section :: "bytes \<Rightarrow> nat \<Rightarrow> nat \<Rightarrow> (dns_record list \<times> nat) dns_result" where
  "parse_section buf 0 offset = Ok ([], offset)"
| "parse_section buf (Suc k) offset =
     obind (parse_record buf offset) (\<lambda>(r, next).
     obind (parse_section buf k next) (\<lambda>(rs, end_offset).
       Ok ((case r of None \<Rightarrow> rs | Some r \<Rightarrow> r # rs), end_offset)))"

definition from_bytes :: "bytes \<Rightarrow> dns_packet dns_result" where
  "from_bytes buf =
     (if length buf < 12 then Err (Truncated ''header'')
      else
        obind (read_u16 buf 0) (\<lambda>i.
        obind (read_u16 buf 2) (\<lambda>f.
        obind (read_u16 buf 4) (\<lambda>nq.
        obind (read_u16 buf 6) (\<lambda>na.
        obind (read_u16 buf 8) (\<lambda>nu.
        obind (read_u16 buf 10) (\<lambda>nd.
        obind (parse_questions buf (unat nq) 12) (\<lambda>(qs, o1).
        obind (parse_section buf (unat na) o1) (\<lambda>(an, o2).
        obind (parse_section buf (unat nu) o2) (\<lambda>(au, o3).
        obind (parse_section buf (unat nd) o3) (\<lambda>(ad, o4).
          Ok \<lparr>header = \<lparr>h_id = i, h_flags = f, h_questions = nq, h_answers = na,
                         h_authorities = nu, h_additionals = nd\<rparr>,
              questions = qs, answers = an, authorities = au, additionals = ad\<rparr>)))))))))))"


section \<open>Panics\<close>

lemma parse_qname_loop_not_Panic [simp]: "parse_qname_loop buf cur nm jumped e jumps \<noteq> Panic"
proof (induction buf cur nm jumped e jumps rule: parse_qname_loop.induct)
  case (1 buf cur nm jumped e jumps)
  note unf = parse_qname_loop.simps [of buf cur nm jumped e jumps]
  show ?case
    by (cases "length buf \<le> cur"; cases "buf ! cur AND 0b11000000 = 0")
       (use "1.IH"(1) [OF _ refl] "1.IH"(2) [OF _ refl] in \<open>auto simp: unf Let_def\<close>)
qed

lemma parse_qname_not_Panic [simp]: "parse_qname buf off \<noteq> Panic"
  by (auto simp: parse_qname_def obind_eq_Panic)

lemma parse_qname_loop_end:
  "parse_qname_loop buf cur nm jumped e jumps = Ok (r, e') \<Longrightarrow>
     if jumped then e' = e else cur < e' \<and> e' \<le> length buf"
proof (induction buf cur nm jumped e jumps rule: parse_qname_loop.induct)
  case (1 buf cur nm jumped e jumps)
  note unf = parse_qname_loop.simps [of buf cur nm jumped e jumps]
  show ?case
    by (cases "length buf \<le> cur"; cases "buf ! cur AND 0b11000000 = 0")
       (use "1.prems" "1.IH"(1) [OF _ refl] "1.IH"(2) [OF _ refl] in
          \<open>auto simp: unf Let_def split: if_splits\<close>)
qed

lemma parse_qname_bounds: "parse_qname buf off = Ok (r, e) \<Longrightarrow> off < e \<and> e \<le> length buf"
  by (auto simp: parse_qname_def dest: parse_qname_loop_end)

lemma parse_character_strings_not_Panic [simp]: "parse_character_strings_loop d i acc \<noteq> Panic"
proof (induction d i acc rule: parse_character_strings_loop.induct)
  case (1 d i acc)
  show ?case
    using "1.IH" [OF _ refl]
    by (subst parse_character_strings_loop.simps) (simp add: Let_def)
qed

text \<open>The two slices that start at the end of a name are the only reads not covered by a guard.\<close>

lemmas panic_simps = obind_eq_Panic read_u8_def read_u16_def read_u32_def slice_def

lemma fixed_rdata_not_Panic:
  assumes "start + n \<le> length buf"
  shows "parse_a buf owner t start n \<noteq> Panic" "parse_aaaa buf owner t start n \<noteq> Panic"
    "parse_mx buf owner t start n \<noteq> Panic" "parse_txt buf owner t start n \<noteq> Panic"
    "parse_srv buf owner t start n \<noteq> Panic" "parse_caa buf owner t start n \<noteq> Panic"
    "parse_dnskey buf owner t start n \<noteq> Panic" "parse_ds buf owner t start n \<noteq> Panic"
  using assms
  by (auto simp: panic_simps parse_a_def parse_aaaa_def parse_mx_def parse_txt_def parse_srv_def
      parse_caa_def parse_dnskey_def parse_ds_def parse_character_strings_def Let_def
      split: if_splits)

lemma name_rdata_not_Panic:
  "parse_cname buf owner t start \<noteq> Panic" "parse_ns buf owner t start \<noteq> Panic"
  "parse_ptr buf owner t start \<noteq> Panic" "parse_soa buf owner t start \<noteq> Panic"
  by (auto simp: panic_simps parse_cname_def parse_ns_def parse_ptr_def parse_soa_def split: if_splits)

lemma parse_rrsig_Panic_iff:
  assumes "start + n \<le> length buf"
  shows "parse_rrsig buf owner t start n = Panic \<longleftrightarrow>
     18 \<le> n \<and> (\<exists>nm e. parse_qname buf (start + 18) = Ok (nm, e) \<and> start + n < e)"
  using assms
  by (cases "parse_qname buf (start + 18)") (auto simp: panic_simps parse_rrsig_def split: if_splits)

lemma parse_nsec_Panic_iff:
  assumes "start + n \<le> length buf"
  shows "parse_nsec buf owner t start n = Panic \<longleftrightarrow>
     (\<exists>nm e. parse_qname buf start = Ok (nm, e) \<and> start + n < e)"
  using assms
  by (cases "parse_qname buf start") (auto simp: panic_simps parse_nsec_def split: if_splits)

lemma some_eq_Panic: "obind r (\<lambda>x. Ok (Some x)) = Panic \<longleftrightarrow> r = Panic"
  by (cases r) auto

lemma parse_rdata_Panic_iff:
  assumes "start + n \<le> length buf"
  shows "parse_rdata buf rtype cl owner t start n = Panic \<longleftrightarrow>
     (rtype = TYPE_RRSIG \<and> 18 \<le> n \<and>
        (\<exists>nm e. parse_qname buf (start + 18) = Ok (nm, e) \<and> start + n < e)) \<or>
     (rtype = TYPE_NSEC \<and> (\<exists>nm e. parse_qname buf start = Ok (nm, e) \<and> start + n < e))"
  using fixed_rdata_not_Panic [OF assms] name_rdata_not_Panic
    parse_rrsig_Panic_iff [OF assms] parse_nsec_Panic_iff [OF assms]
  by (simp add: parse_rdata_def some_eq_Panic type_codes)

text \<open>
  The records that make the parser panic: an RRSIG or NSEC record whose embedded name runs past
  the end of its record data.
\<close>

definition panic_site :: "bytes \<Rightarrow> nat \<Rightarrow> bool" where
  "panic_site buf offset \<longleftrightarrow>
     (\<exists>owner p rtype dl nm e. parse_qname buf offset = Ok (owner, p) \<and> p + 10 \<le> length buf \<and>
        read_u16 buf p = (Ok rtype :: u16 dns_result) \<and> read_u16 buf (p + 8) = (Ok dl :: u16 dns_result) \<and>
        p + 10 + unat dl \<le> length buf \<and> p + 10 + unat dl < e \<and>
        (rtype = TYPE_RRSIG \<and> 18 \<le> unat dl \<and> parse_qname buf (p + 28) = Ok (nm, e) \<or>
         rtype = TYPE_NSEC \<and> parse_qname buf (p + 10) = Ok (nm, e)))"

lemma parse_record_Panic_iff: "parse_record buf offset = Panic \<longleftrightarrow> panic_site buf offset"
proof (cases "parse_qname buf offset")
  case (Ok np)
  obtain owner p where np: "np = (owner, p)" by fastforce
  show ?thesis
  proof (cases "length buf < p + 10")
    case True
    with Ok np show ?thesis by (auto simp: parse_record_def panic_site_def)
  next
    case False
    then obtain ty cl t dl where r: "read_u16 buf p = (Ok ty :: u16 dns_result)"
      "read_u16 buf (p + 2) = (Ok cl :: u16 dns_result)"
      "read_u32 buf (p + 4) = (Ok t :: u32 dns_result)"
      "read_u16 buf (p + 8) = (Ok dl :: u16 dns_result)"
      by (auto simp: read_u16_def read_u32_def)
    show ?thesis
      using Ok np False r
      by (auto simp: parse_record_def panic_site_def Let_def parse_rdata_Panic_iff obind_eq_Panic
          not_less add.commute split: if_splits)
  qed
qed (auto simp: parse_record_def panic_site_def)


section \<open>Progress and bounds\<close>

lemma parse_record_bounds:
  "parse_record buf off = Ok (r, e) \<Longrightarrow> off + 11 \<le> e \<and> e \<le> length buf"
  by (fastforce simp: parse_record_def Let_def split: if_splits prod.splits dest: parse_qname_bounds)

lemma parse_questions_bounds:
  "parse_questions buf k off = Ok (qs, e) \<Longrightarrow> off \<le> length buf \<Longrightarrow>
     length qs = k \<and> off + 5 * k \<le> e \<and> e \<le> length buf"
proof (induction k arbitrary: off qs)
  case (Suc k)
  from Suc.prems(1) obtain nm p ty cl qs' where
    p: "parse_qname buf off = Ok (nm, p)" and le: "p + 4 \<le> length buf"
    and rest: "parse_questions buf k (p + 4) = Ok (qs', e)"
    and qs: "qs = \<lparr>qname = nm, qtype = ty, qclass = cl\<rparr> # qs'"
    by (auto split: if_splits prod.splits)
  from Suc.IH [OF rest le] parse_qname_bounds [OF p] qs show ?case by auto
qed simp

lemma parse_section_bounds:
  "parse_section buf k off = Ok (rs, e) \<Longrightarrow> off \<le> length buf \<Longrightarrow>
     length rs \<le> k \<and> off + 11 * k \<le> e \<and> e \<le> length buf"
proof (induction k arbitrary: off rs)
  case (Suc k)
  from Suc.prems(1) obtain r p rs' where
    p: "parse_record buf off = Ok (r, p)" and rest: "parse_section buf k p = Ok (rs', e)"
    and rs: "rs = (case r of None \<Rightarrow> rs' | Some r \<Rightarrow> r # rs')"
    by (auto split: prod.splits)
  from parse_record_bounds [OF p] have "p \<le> length buf" "off + 11 \<le> p" by auto
  with Suc.IH [OF rest] rs show ?case by (auto split: option.splits)
qed simp

lemma from_bytes_header:
  assumes "from_bytes buf = Ok p"
  shows "12 \<le> length buf"
    and "length (questions p) = unat (h_questions (header p))"
    and "length (answers p) \<le> unat (h_answers (header p))"
    and "length (authorities p) \<le> unat (h_authorities (header p))"
    and "length (additionals p) \<le> unat (h_additionals (header p))"
    and "12 + 5 * unat (h_questions (header p)) + 11 * (unat (h_answers (header p))
           + unat (h_authorities (header p)) + unat (h_additionals (header p))) \<le> length buf"
proof -
  show l: "12 \<le> length buf" using assms by (simp add: from_bytes_def split: if_splits)
  from assms obtain nq na nu nd o1 o2 o3 o4 where
    h: "h_questions (header p) = nq" "h_answers (header p) = na"
       "h_authorities (header p) = nu" "h_additionals (header p) = nd"
    and q: "parse_questions buf (unat nq) 12 = Ok (questions p, o1)"
    and a: "parse_section buf (unat na) o1 = Ok (answers p, o2)"
    and u: "parse_section buf (unat nu) o2 = Ok (authorities p, o3)"
    and d: "parse_section buf (unat nd) o3 = Ok (additionals p, o4)"
    by (auto simp: from_bytes_def split: if_splits prod.splits)
  note q' = parse_questions_bounds [OF q l]
  note a' = parse_section_bounds [OF a conjunct2 [OF conjunct2 [OF q']]]
  note u' = parse_section_bounds [OF u conjunct2 [OF conjunct2 [OF a']]]
  note d' = parse_section_bounds [OF d conjunct2 [OF conjunct2 [OF u']]]
  show "length (questions p) = unat (h_questions (header p))"
    "length (answers p) \<le> unat (h_answers (header p))"
    "length (authorities p) \<le> unat (h_authorities (header p))"
    "length (additionals p) \<le> unat (h_additionals (header p))"
    "12 + 5 * unat (h_questions (header p)) + 11 * (unat (h_answers (header p))
           + unat (h_authorities (header p)) + unat (h_additionals (header p))) \<le> length buf"
    using q' a' u' d' h by auto
qed

lemma parse_qname_loop_length:
  "parse_qname_loop buf cur nm jumped e jumps = Ok (r, e') \<Longrightarrow> jumps \<le> MAX_POINTER_JUMPS \<Longrightarrow>
     length r \<le> length nm + 4 * (length buf - cur) + 4 * (MAX_POINTER_JUMPS - jumps) * length buf"
proof (induction buf cur nm jumped e jumps rule: parse_qname_loop.induct)
  case (1 buf cur nm jumped e jumps)
  note unf = parse_qname_loop.simps [of buf cur nm jumped e jumps]
  show ?case
  proof (cases "length buf \<le> cur")
    case True
    with "1.prems" show ?thesis by (simp add: unf)
  next
    case ir: False
    show ?thesis
    proof (cases "buf ! cur AND 0b11000000 = 0")
      case lab: True
      let ?l = "take (unat (buf ! cur)) (drop (cur + 1) buf)"
      show ?thesis
      proof (cases "buf ! cur = 0")
        case True
        with "1.prems" lab ir show ?thesis by (simp add: unf)
      next
        case nz: False
        then have pos: "0 < unat (buf ! cur)" by (simp add: unat_gt_0)
        from "1.prems" lab ir nz have fits: "cur + 1 + unat (buf ! cur) \<le> length buf"
          and rec: "parse_qname_loop buf (cur + 1 + unat (buf ! cur))
             (nm @ from_utf8_lossy ?l @ ''.'') jumped e jumps = Ok (r, e')"
          by (auto simp: unf Let_def split: if_splits)
        have "length r \<le> length (nm @ from_utf8_lossy ?l @ ''.'') + 4 * (length buf - (cur + 1 + unat (buf ! cur)))
              + 4 * (MAX_POINTER_JUMPS - jumps) * length buf"
          using "1.IH"(2) [OF ir refl] lab nz fits rec "1.prems"(2) by simp
        moreover have "length (from_utf8_lossy ?l) \<le> 3 * unat (buf ! cur)"
          using length_from_utf8_lossy [of ?l] fits by simp
        ultimately show ?thesis using pos fits by simp
      qed
    next
      case ptr: False
      from "1.prems" ptr ir have j: "jumps + 1 \<le> MAX_POINTER_JUMPS" and c: "\<not> length buf \<le> cur + 1"
        and rec: "parse_qname_loop buf (unat (be_word [buf ! cur AND 0x3F, buf ! (cur + 1)] :: u16))
            nm True (if jumped then e else cur + 2) (jumps + 1) = Ok (r, e')"
        by (auto simp: unf Let_def split: if_splits)
      let ?t = "unat (be_word [buf ! cur AND 0x3F, buf ! (cur + 1)] :: u16)"
      have "length r \<le> length nm + 4 * (length buf - ?t) + 4 * (MAX_POINTER_JUMPS - (jumps + 1)) * length buf"
        using "1.IH"(1) [OF ir refl ptr c] j rec by simp
      also have "\<dots> \<le> length nm + 4 * length buf + 4 * (MAX_POINTER_JUMPS - (jumps + 1)) * length buf"
        by simp
      also have "\<dots> = length nm + 4 * (MAX_POINTER_JUMPS - jumps) * length buf"
      proof -
        obtain m where m: "MAX_POINTER_JUMPS - jumps = Suc m" "MAX_POINTER_JUMPS - (jumps + 1) = m"
          using j by fastforce
        show ?thesis by (simp only: m) (simp add: algebra_simps)
      qed
      finally show ?thesis by simp
    qed
  qed
qed

lemma parse_qname_length:
  "parse_qname buf off = Ok (r, e) \<Longrightarrow> length r \<le> 260 * length buf"
  by (auto simp: parse_qname_def MAX_POINTER_JUMPS_def dest!: parse_qname_loop_length split: if_splits)

end
