(* ===== verification/Encoder.thy ===== *)
theory Encoder
  imports Dns_Record
begin

text \<open>
  The wire encoder of \<^verbatim>\<open>src/dns/encoder.rs\<close>: its state (the buffer and the offsets of the
  suffixes already written, for RFC 1035 compression) and one function per method.  The
  \<^verbatim>\<open>to_udp_bytes\<close> truncation of \<^verbatim>\<open>src/dns/packet.rs\<close> is here too.
\<close>

record encoder =
  buf :: bytes
  name_offsets :: "string \<rightharpoonup> u16"

text \<open>\<^verbatim>\<open>self.buf.extend_from_slice\<close> and \<^verbatim>\<open>self.buf.push\<close>.\<close>

definition extend :: "bytes \<Rightarrow> encoder \<Rightarrow> encoder" where
  "extend bs enc = enc\<lparr>buf := buf enc @ bs\<rparr>"

definition push :: "u8 \<Rightarrow> encoder \<Rightarrow> encoder" where
  "push b enc = enc\<lparr>buf := buf enc @ [b]\<rparr>"


section \<open>Names\<close>

text \<open>The bytes of a label, cut at 63.\<close>

definition label_bytes :: "string \<Rightarrow> bytes" where
  "label_bytes l = (let n = min (length l) 63 in of_nat n # take n (str_bytes l))"

text \<open>
  The loop of \<^verbatim>\<open>encode_qname\<close> over \<^verbatim>\<open>labels[i..]\<close>: a suffix already written becomes a pointer
  and ends the name; otherwise its offset is remembered, if 14 bits can address it, and its
  first label is written.
\<close>

fun encode_labels :: "string list \<Rightarrow> encoder \<Rightarrow> encoder" where
  "encode_labels [] enc = push 0 enc"
| "encode_labels (l # ls) enc =
     (let suffix = join ''.'' (l # ls) in
      case name_offsets enc suffix of
        Some offset \<Rightarrow> extend (be_bytes 2 (0xC000 OR offset)) enc
      | None \<Rightarrow>
          encode_labels ls
            (extend (label_bytes l)
              (if length (buf enc) \<le> 0x3FFF
               then enc\<lparr>name_offsets := (name_offsets enc)(suffix \<mapsto> of_nat (length (buf enc)))\<rparr>
               else enc)))"

definition encode_qname :: "string \<Rightarrow> encoder \<Rightarrow> encoder" where
  "encode_qname name enc =
     (if name = [] then push 0 enc else encode_labels (split_on CHR ''.'' name) enc)"

definition encode_name_uncompressed :: "string \<Rightarrow> encoder \<Rightarrow> encoder" where
  "encode_name_uncompressed name enc =
     (if name = [] then push 0 enc
      else push 0 (fold (\<lambda>l. extend (label_bytes l)) (split_on CHR ''.'' name) enc))"


section \<open>Records\<close>

definition encode_record_header :: "string \<Rightarrow> u16 \<Rightarrow> u32 \<Rightarrow> encoder \<Rightarrow> encoder" where
  "encode_record_header owner rtype t enc =
     extend (be_bytes 4 t) (extend (be_bytes 2 (1 :: u16)) (extend (be_bytes 2 rtype)
       (encode_qname owner enc)))"

text \<open>The two length bytes are written as zero and filled in after the body.\<close>

definition encode_rdata :: "(encoder \<Rightarrow> encoder) \<Rightarrow> encoder \<Rightarrow> encoder" where
  "encode_rdata write_body enc =
     (let len_pos = length (buf enc);
          enc1 = extend (be_bytes 2 (0 :: u16)) enc;
          rdata_start = length (buf enc1);
          enc2 = write_body enc1;
          rdlength = be_bytes 2 (of_nat (length (buf enc2) - rdata_start) :: u16)
      in enc2\<lparr>buf := (buf enc2)[len_pos := rdlength ! 0, len_pos + 1 := rdlength ! 1]\<rparr>)"

text \<open>\<^verbatim>\<open>[T]::chunks(n)\<close>.\<close>

function chunks :: "nat \<Rightarrow> 'a list \<Rightarrow> 'a list list" where
  "chunks n xs = (if xs = [] \<or> n = 0 then [] else take n xs # chunks n (drop n xs))"
  by pat_completeness auto
termination
  by (relation "measure (\<lambda>(n, xs). length xs)") auto

declare chunks.simps [simp del]

definition encode_character_strings :: "string \<Rightarrow> encoder \<Rightarrow> encoder" where
  "encode_character_strings text enc =
     (if text = [] then push 0 enc
      else fold (\<lambda>chunk e. extend chunk (push (of_nat (length chunk)) e))
             (chunks 255 (str_bytes text)) enc)"

fun encode_record :: "dns_record \<Rightarrow> encoder \<Rightarrow> encoder" where
  "encode_record (A owner addr t) enc =
     extend (octets4 addr) (extend (be_bytes 2 (4 :: u16)) (encode_record_header owner TYPE_A t enc))"
| "encode_record (AAAA owner addr t) enc =
     extend (octets6 addr) (extend (be_bytes 2 (16 :: u16)) (encode_record_header owner TYPE_AAAA t enc))"
| "encode_record (CNAME owner alias t) enc =
     encode_rdata (encode_qname alias) (encode_record_header owner TYPE_CNAME t enc)"
| "encode_record (MX owner preference exchange t) enc =
     encode_rdata (\<lambda>e. encode_qname exchange (extend (be_bytes 2 preference) e))
       (encode_record_header owner TYPE_MX t enc)"
| "encode_record (TXT owner text t) enc =
     encode_rdata (encode_character_strings text) (encode_record_header owner TYPE_TXT t enc)"
| "encode_record (NS owner nameserver t) enc =
     encode_rdata (encode_qname nameserver) (encode_record_header owner TYPE_NS t enc)"
| "encode_record (SOA owner mname rname serial refresh retry expire minimum t) enc =
     encode_rdata (\<lambda>e.
         extend (be_bytes 4 minimum) (extend (be_bytes 4 expire) (extend (be_bytes 4 retry)
           (extend (be_bytes 4 refresh) (extend (be_bytes 4 serial)
             (encode_qname rname (encode_qname mname e)))))))
       (encode_record_header owner TYPE_SOA t enc)"
| "encode_record (SRV owner priority weight port target t) enc =
     encode_rdata (\<lambda>e.
         encode_name_uncompressed target (extend (be_bytes 2 port) (extend (be_bytes 2 weight)
           (extend (be_bytes 2 priority) e))))
       (encode_record_header owner TYPE_SRV t enc)"
| "encode_record (PTR owner ptrdname t) enc =
     encode_rdata (encode_qname ptrdname) (encode_record_header owner TYPE_PTR t enc)"
| "encode_record (CAA owner flags tag value t) enc =
     encode_rdata (\<lambda>e.
         let tag_len = min (length tag) 255 in
         extend (str_bytes value) (extend (take tag_len (str_bytes tag))
           (push (of_nat tag_len) (push flags e))))
       (encode_record_header owner TYPE_CAA t enc)"
| "encode_record (OPT udp_size) enc =
     extend (be_bytes 2 (0 :: u16)) (extend (be_bytes 4 (0 :: u32)) (extend (be_bytes 2 udp_size)
       (extend (be_bytes 2 TYPE_OPT) (push 0 enc))))"
| "encode_record (DNSKEY owner flags protocol algorithm public_key t) enc =
     encode_rdata (\<lambda>e.
         extend public_key (push algorithm (push protocol (extend (be_bytes 2 flags) e))))
       (encode_record_header owner TYPE_DNSKEY t enc)"
| "encode_record (RRSIG owner type_covered algorithm labels original_ttl signature_expiration
       signature_inception key_tag signer_name signature t) enc =
     encode_rdata (\<lambda>e.
         extend signature (encode_name_uncompressed signer_name (extend (be_bytes 2 key_tag)
           (extend (be_bytes 4 signature_inception) (extend (be_bytes 4 signature_expiration)
             (extend (be_bytes 4 original_ttl) (push labels (push algorithm
               (extend (be_bytes 2 type_covered) e)))))))))
       (encode_record_header owner TYPE_RRSIG t enc)"
| "encode_record (DS owner key_tag algorithm digest_type digest t) enc =
     encode_rdata (\<lambda>e.
         extend digest (push digest_type (push algorithm (extend (be_bytes 2 key_tag) e))))
       (encode_record_header owner TYPE_DS t enc)"
| "encode_record (NSEC owner next_name type_bitmap t) enc =
     encode_rdata (\<lambda>e. extend type_bitmap (encode_name_uncompressed next_name e))
       (encode_record_header owner TYPE_NSEC t enc)"


section \<open>Packets\<close>

definition encode_question :: "dns_question \<Rightarrow> encoder \<Rightarrow> encoder" where
  "encode_question q enc =
     extend (be_bytes 2 (qclass q)) (extend (be_bytes 2 (qtype q)) (encode_qname (qname q) enc))"

text \<open>The section counts are the lengths of the sections, as \<^verbatim>\<open>u16\<close>.\<close>

definition encode_header :: "dns_packet \<Rightarrow> encoder \<Rightarrow> encoder" where
  "encode_header p enc =
     extend (be_bytes 2 (of_nat (length (additionals p)) :: u16))
       (extend (be_bytes 2 (of_nat (length (authorities p)) :: u16))
         (extend (be_bytes 2 (of_nat (length (answers p)) :: u16))
           (extend (be_bytes 2 (of_nat (length (questions p)) :: u16))
             (extend (be_bytes 2 (h_flags (header p))) (extend (be_bytes 2 (h_id (header p))) enc)))))"

definition encode :: "dns_packet \<Rightarrow> encoder \<Rightarrow> encoder" where
  "encode p enc =
     fold encode_record (additionals p) (fold encode_record (authorities p)
       (fold encode_record (answers p) (fold encode_question (questions p)
         (encode_header p enc))))"

definition to_bytes :: "dns_packet \<Rightarrow> bytes" where
  "to_bytes p = buf (encode p \<lparr>buf = [], name_offsets = Map.empty\<rparr>)"

text \<open>
  \<^verbatim>\<open>udp_limit\<close> and \<^verbatim>\<open>to_udp_bytes\<close> of \<^verbatim>\<open>packet.rs\<close>: a message over the limit is sent without its
  answers and authorities and with the TC bit.
\<close>

definition clamp :: "nat \<Rightarrow> nat \<Rightarrow> nat \<Rightarrow> nat" where
  "clamp x lo hi = (if x < lo then lo else if hi < x then hi else x)"

definition udp_limit :: "dns_packet \<Rightarrow> nat" where
  "udp_limit p =
     (case edns_udp_size p of
        Some s \<Rightarrow> clamp (unat s) MAX_UDP_SIZE MAX_EDNS_UDP
      | None \<Rightarrow> MAX_UDP_SIZE)"

definition truncate_packet :: "dns_packet \<Rightarrow> dns_packet" where
  "truncate_packet p =
     \<lparr>header = (header p)\<lparr>h_flags := h_flags (header p) OR 0x0200, h_answers := 0,
                 h_authorities := 0, h_additionals := of_nat (length (additionals p))\<rparr>,
      questions = questions p, answers = [], authorities = [], additionals = additionals p\<rparr>"

definition to_udp_bytes :: "dns_packet \<Rightarrow> bytes" where
  "to_udp_bytes p =
     (let bs = to_bytes p in
      if length bs \<le> udp_limit p then bs else to_bytes (truncate_packet p))"

end
