(* ===== verification/Wire_Names.thy ===== *)
theory Wire_Names
  imports Decoder Encoder
begin

text \<open>
  Names on the wire.  \<open>name_at\<close> is the abstract meaning of the bytes of a name (RFC 1035
  4.1.4): labels, ended by a zero byte or by a pointer to a name elsewhere in the message.  The
  parser reads every such name back, and the encoder's compression writes one: every entry of
  its offset table stands at a position where the name of that entry can be read.
\<close>

section \<open>Length bytes and pointers\<close>

lemma label_length_byte_aux: "list_all (\<lambda>n. (of_nat n :: u8) AND 0b11000000 = 0) [0..<64]"
  by code_simp

lemma label_length_byte:
  assumes "n \<le> 63"
  shows "(of_nat n :: u8) AND 0b11000000 = 0" and "unat (of_nat n :: u8) = n"
proof -
  show "(of_nat n :: u8) AND 0b11000000 = 0"
    using label_length_byte_aux assms by (simp add: list_all_iff)
  show "unat (of_nat n :: u8) = n" using assms by (simp add: unat_of_nat)
qed

lemma be_bytes_2: "be_bytes 2 (w :: u16) = [ucast (drop_bit 8 w), ucast w]"
  by (simp add: numeral_2_eq_2)

lemma be_word_2: "be_word [x, y] = (push_bit 8 (ucast x) OR ucast y :: u16)"
  by (simp add: be_word_def)

lemma bit_small:
  assumes "unat (w :: u16) < 2 ^ n" and "bit w i"
  shows "i < n"
proof (rule ccontr)
  assume "\<not> i < n"
  have "unat (take_bit n w) = unat w"
    using assms(1) by (simp add: unsigned_take_bit_eq take_bit_nat_eq_self)
  then have "take_bit n w = w" by (rule unsigned_word_eqI)
  then have "bit (take_bit n w) i" using assms(2) by simp
  with \<open>\<not> i < n\<close> show False by (simp add: bit_take_bit_iff)
qed

lemma pointer_bytes:
  fixes off :: u16
  assumes "unat off \<le> 0x3FFF"
  shows "(be_bytes 2 (0xC000 OR off)) ! 0 AND 0b11000000 \<noteq> 0"
    and "be_word [(be_bytes 2 (0xC000 OR off)) ! 0 AND 0x3F, (be_bytes 2 (0xC000 OR off)) ! 1] = off"
proof -
  have small: "bit off i \<Longrightarrow> i < 14" for i
    using bit_small [of off 14 i] assms by simp
  then have high: "14 \<le> i \<Longrightarrow> \<not> bit off i" for i by force
  define tag :: u16 where "tag = 0xC000"
  have "tag = push_bit 14 3" and six: "(0x3F :: u8) = mask 6"
    by (simp_all add: tag_def mask_eq_exp_minus_1)
  then have low: "i < 14 \<Longrightarrow> \<not> bit tag i" for i by (simp only: bit_push_bit_iff) simp
  have "bit (ucast (drop_bit 8 (0xC000 OR off)) AND (0b11000000 :: u8)) 7"
    by (simp add: bit_simps)
  then show "(be_bytes 2 (0xC000 OR off)) ! 0 AND 0b11000000 \<noteq> 0"
    by (metis be_bytes_2 bit_0_eq bot_apply nth_Cons_0 bot_bool_def)
  show "be_word [(be_bytes 2 (0xC000 OR off)) ! 0 AND 0x3F, (be_bytes 2 (0xC000 OR off)) ! 1] = off"
  proof (rule bit_word_eqI)
    fix i
    assume i: "i < LENGTH(16)"
    consider "i < 8" | "8 \<le> i" "i < 14" | "14 \<le> i" by linarith
    then show "bit (be_word [(be_bytes 2 (0xC000 OR off)) ! 0 AND 0x3F,
        (be_bytes 2 (0xC000 OR off)) ! 1] :: u16) i = bit off i"
      unfolding be_bytes_2 be_word_2 six tag_def [symmetric]
      using i high low by cases (auto simp: bit_simps)
  qed
qed

section \<open>The meaning of the bytes of a name\<close>

text \<open>
  \<open>name_at b p ls j q\<close>: the labels \<open>ls\<close> stand at position \<open>p\<close> of \<open>b\<close>, reading them follows \<open>j\<close>
  pointers, and the name's own bytes end before \<open>q\<close>.
\<close>

inductive name_at :: "bytes \<Rightarrow> nat \<Rightarrow> bytes list \<Rightarrow> nat \<Rightarrow> nat \<Rightarrow> bool" for b where
  root: "at b p [0] \<Longrightarrow> name_at b p [] 0 (p + 1)"
| label: "at b p (of_nat (length l) # l) \<Longrightarrow> l \<noteq> [] \<Longrightarrow> length l \<le> 63 \<Longrightarrow>
    name_at b (p + 1 + length l) ls j q \<Longrightarrow> name_at b p (l # ls) j q"
| pointer: "at b p (be_bytes 2 (0xC000 OR off :: u16)) \<Longrightarrow> unat off \<le> 0x3FFF \<Longrightarrow>
    name_at b (unat off) ls j q \<Longrightarrow> name_at b p ls (Suc j) (p + 2)"

lemma name_at_extend: "name_at b p ls j q \<Longrightarrow> name_at (b @ ys) p ls j q"
  by (induction rule: name_at.induct) (auto intro: name_at.intros [simplified] at_extend)

lemma parse_qname_loop_label:
  assumes "at b p (of_nat (length l) # l)" and "l \<noteq> []" and "length l \<le> 63"
  shows "parse_qname_loop b p nm jumped e jumps
     = parse_qname_loop b (p + 1 + length l) (nm @ from_utf8_lossy l @ ''.'') jumped e jumps"
proof -
  have "at b p ([of_nat (length l)] @ l)" using assms(1) by simp
  then have body: "at b (p + 1) l" by (simp add: at_append_iff del: append_Cons append_Nil)
  have hd: "b ! p = of_nat (length l)" using at_nth [OF assms(1), of 0] by simp
  have tl: "take (length l) (drop (p + 1) b) = l" and len: "p + 1 + length l \<le> length b"
    using body by (auto simp: at_def)
  have nz: "(of_nat (length l) :: u8) \<noteq> 0"
    using assms(2,3) label_length_byte(2) [OF assms(3)] by auto
  show ?thesis
    using len tl nz label_length_byte [OF assms(3)]
    by (subst parse_qname_loop.simps) (simp add: hd Let_def)
qed

lemma parse_qname_loop_pointer:
  fixes off :: u16
  assumes "at b p (be_bytes 2 (0xC000 OR off))" and "unat off \<le> 0x3FFF" and "jumps < MAX_POINTER_JUMPS"
  shows "parse_qname_loop b p nm jumped e jumps
     = parse_qname_loop b (unat off) nm True (if jumped then e else p + 2) (Suc jumps)"
proof -
  have hd: "b ! p = be_bytes 2 (0xC000 OR off) ! 0" "b ! (p + 1) = be_bytes 2 (0xC000 OR off) ! 1"
    using at_nth [OF assms(1), of 0] at_nth [OF assms(1), of 1] by simp_all
  have len: "p + 2 \<le> length b" using at_length [OF assms(1)] by simp
  show ?thesis
    using len assms(3) pointer_bytes [OF assms(2)] hd
    by (subst parse_qname_loop.simps) (simp add: Let_def)
qed

lemma parse_qname_loop_name_at:
  "name_at b p ls j q \<Longrightarrow> jumps + j \<le> MAX_POINTER_JUMPS \<Longrightarrow>
     parse_qname_loop b p nm jumped e jumps
       = Ok (nm @ concat (map (\<lambda>l. from_utf8_lossy l @ ''.'') ls), if jumped then e else q)"
proof (induction arbitrary: nm jumped e jumps rule: name_at.induct)
  case (root p)
  then have "b ! p = 0" "p < length b" using at_nth [OF root(1), of 0] by (auto simp: at_def)
  then show ?case by (subst parse_qname_loop.simps) simp
next
  case (label p l ls j q)
  then show ?case by (simp add: parse_qname_loop_label)
next
  case (pointer p off ls j q)
  then show ?case by (simp add: parse_qname_loop_pointer)
qed

definition wf_label :: "string \<Rightarrow> bool" where
  "wf_label l \<longleftrightarrow> l \<noteq> [] \<and> length l \<le> 63 \<and> CHR ''.'' \<notin> set l \<and> valid_utf8 (str_bytes l)"

lemma concat_labels: "ls \<noteq> [] \<Longrightarrow> concat (map (\<lambda>l. l @ ''.'') ls) = join ''.'' ls @ ''.''"
  by (induction ls rule: list_nonempty_induct) (simp_all add: join_Cons)

lemma parse_qname_name_at:
  assumes "name_at b p (map str_bytes ls) j q" and "j \<le> MAX_POINTER_JUMPS" and "\<forall>l \<in> set ls. wf_label l"
  shows "parse_qname b p = Ok (join ''.'' ls, q)"
proof -
  have labels: "map (\<lambda>l. from_utf8_lossy l @ ''.'') (map str_bytes ls) = map (\<lambda>l. l @ ''.'') ls"
    using assms(3) by (simp add: wf_label_def)
  have "parse_qname_loop b p [] False 0 0
      = Ok (concat (map (\<lambda>l. from_utf8_lossy l @ ''.'') (map str_bytes ls)), q)"
    using parse_qname_loop_name_at [OF assms(1), of 0 "[]" False 0] assms(2) by simp
  then have "parse_qname_loop b p [] False 0 0 = Ok (concat (map (\<lambda>l. l @ ''.'') ls), q)"
    by (simp only: labels)
  with concat_labels [of ls] show ?thesis by (cases "ls = []") (simp_all add: parse_qname_def)
qed


section \<open>Compression\<close>

text \<open>
  An entry of the offset table is good when the name can be read at its offset, following fewer
  pointers than it has labels.  \<open>enc_ok\<close> is the invariant of the encoder.
\<close>

definition good_offset :: "bytes \<Rightarrow> string \<Rightarrow> u16 \<Rightarrow> bool" where
  "good_offset b s off \<longleftrightarrow> unat off \<le> 0x3FFF \<and>
     (\<exists>j q. j < length (split_on CHR ''.'' s) \<and>
        name_at b (unat off) (map str_bytes (split_on CHR ''.'' s)) j q)"

definition enc_ok :: "encoder \<Rightarrow> bool" where
  "enc_ok enc \<longleftrightarrow> (\<forall>s off. name_offsets enc s = Some off \<longrightarrow> good_offset (buf enc) s off)"

lemma good_offset_extend: "good_offset b s off \<Longrightarrow> good_offset (b @ ys) s off"
  by (auto simp: good_offset_def intro: name_at_extend)

lemma enc_ok_extend [intro]: "enc_ok enc \<Longrightarrow> enc_ok (extend bs enc)"
  by (auto simp: enc_ok_def extend_def good_offset_extend)

lemma enc_ok_push [intro]: "enc_ok enc \<Longrightarrow> enc_ok (push b enc)"
  by (auto simp: enc_ok_def push_def good_offset_extend)

lemma buf_extend [simp]: "buf (extend bs enc) = buf enc @ bs"
  by (simp add: extend_def)

lemma buf_push [simp]: "buf (push b enc) = buf enc @ [b]"
  by (simp add: push_def)

lemma label_bytes_wf: "wf_label l \<Longrightarrow> label_bytes l = of_nat (length (str_bytes l)) # str_bytes l"
  by (simp add: label_bytes_def wf_label_def min_def)

lemma join_shorter: "wf_label l \<Longrightarrow> length (join ''.'' ls) < length (join ''.'' (l # ls))"
  by (cases ls) (auto simp: wf_label_def)

text \<open>
  The names written by one call of \<open>encode_labels\<close>: while a name is being written, the table
  already holds its longer suffixes, so only the entries of at most the remaining length need
  to be good.
\<close>

lemma encode_labels_name_at:
  assumes "\<forall>l \<in> set ls. wf_label l"
    and "\<And>s off. name_offsets enc s = Some off \<Longrightarrow> length s \<le> length (join ''.'' ls) \<Longrightarrow>
           good_offset (buf enc) s off"
  shows "(\<exists>ext. buf (encode_labels ls enc) = buf enc @ ext \<and> 
      length ext \<le> length (join ''.'' ls) + (if ls = [] then 1 else 2)) \<and>
    (\<exists>j \<le> length ls. name_at (buf (encode_labels ls enc)) (length (buf enc)) (map str_bytes ls) j
         (length (buf (encode_labels ls enc)))) \<and>
    (\<forall>s off. name_offsets (encode_labels ls enc) s = Some off \<longrightarrow>
       name_offsets enc s = Some off \<or> good_offset (buf (encode_labels ls enc)) s off)"
  using assms
proof (induction ls arbitrary: enc)
  case Nil
  have "name_at (buf enc @ [0]) (length (buf enc)) [] 0 (length (buf enc) + 1)"
    by (rule name_at.root) simp
  then show ?case by (auto simp: push_def)
next
  case (Cons l ls)
  let ?s = "join ''.'' (l # ls)"
  have dotless: "\<forall>m \<in> set (l # ls). CHR ''.'' \<notin> set m"
    using Cons.prems(1) by (auto simp: wf_label_def)
  then have split: "split_on CHR ''.'' ?s = l # ls" by (intro split_on_join) simp_all
  show ?case
  proof (cases "name_offsets enc ?s")
    case (Some off)
    let ?enc = "extend (be_bytes 2 (0xC000 OR off)) enc"
    have e: "encode_labels (l # ls) enc = ?enc" using Some by simp
    from Cons.prems(2) [OF Some] obtain j q where g: "unat off \<le> 0x3FFF" "j < length (l # ls)"
      "name_at (buf enc) (unat off) (map str_bytes (l # ls)) j q"
      by (auto simp: good_offset_def split)
    have "name_at (buf ?enc) (length (buf enc)) (map str_bytes (l # ls)) (Suc j) (length (buf enc) + 2)"
      unfolding buf_extend using g by (intro name_at.pointer name_at_extend) simp_all
    then show ?thesis
      unfolding e using g(2) by (auto simp: extend_def intro!: exI [of _ "Suc j"])
  next
    case None
    define enc1 where "enc1 = (if length (buf enc) \<le> 0x3FFF
       then enc\<lparr>name_offsets := (name_offsets enc)(?s \<mapsto> of_nat (length (buf enc)))\<rparr> else enc)"
    define enc2 where "enc2 = extend (label_bytes l) enc1"
    have e: "encode_labels (l # ls) enc = encode_labels ls enc2"
      using None by (simp add: enc1_def enc2_def)
    have wl: "wf_label l" and lb: "label_bytes l = of_nat (length (str_bytes l)) # str_bytes l"
      using Cons.prems(1) label_bytes_wf by auto
    have b2: "buf enc2 = buf enc @ label_bytes l" by (simp add: enc1_def enc2_def)
    have o2: "name_offsets enc2 s = Some off \<Longrightarrow> name_offsets enc s = Some off \<or>
        s = ?s \<and> off = of_nat (length (buf enc)) \<and> length (buf enc) \<le> 0x3FFF" for s off
      by (auto simp: enc1_def enc2_def extend_def split: if_splits)
    have pre: "good_offset (buf enc2) s off"
      if "name_offsets enc2 s = Some off" "length s \<le> length (join ''.'' ls)" for s off
      using o2 [OF that(1)] that(2) join_shorter [OF wl, of ls] Cons.prems(2) [of s off]
      by (auto simp: b2 good_offset_extend)
    from Cons.IH [of enc2] Cons.prems(1) pre obtain ext j where
      ext: "buf (encode_labels ls enc2) = buf enc2 @ ext" "length ext \<le> length (join ''.'' ls) + (if ls = [] then 1 else 2)"
      and j: "j \<le> length ls" "name_at (buf (encode_labels ls enc2)) (length (buf enc2)) (map str_bytes ls) j
         (length (buf (encode_labels ls enc2)))"
      and off: "\<And>s off. name_offsets (encode_labels ls enc2) s = Some off \<Longrightarrow>
         name_offsets enc2 s = Some off \<or> good_offset (buf (encode_labels ls enc2)) s off"
      by auto
    have at: "at (buf (encode_labels ls enc2)) (length (buf enc)) (of_nat (length (str_bytes l)) # str_bytes l)"
      unfolding ext(1) b2 lb by (simp only: append_assoc at_append_mid)
    have here: "name_at (buf (encode_labels ls enc2)) (length (buf enc)) (map str_bytes (l # ls)) j
        (length (buf (encode_labels ls enc2)))"
      unfolding list.map
    proof (rule name_at.label [OF at])
      show "str_bytes l \<noteq> []" "length (str_bytes l) \<le> 63" using wl by (auto simp: wf_label_def)
      show "name_at (buf (encode_labels ls enc2)) (length (buf enc) + 1 + length (str_bytes l))
          (map str_bytes ls) j (length (buf (encode_labels ls enc2)))"
        using j(2) by (simp add: b2 lb)
    qed
    have new: "good_offset (buf (encode_labels ls enc2)) ?s (of_nat (length (buf enc)))"
      if "length (buf enc) \<le> 0x3FFF"
      unfolding good_offset_def split using that here j(1)
      by (intro conjI exI [of _ j] exI [of _ "length (buf (encode_labels ls enc2))"]) (auto simp: unat_of_nat)
    have "name_offsets enc s = Some off \<or> good_offset (buf (encode_labels ls enc2)) s off"
      if "name_offsets (encode_labels ls enc2) s = Some off" for s off
      using off [OF that] o2 [of s off] new by auto
    moreover have "length (label_bytes l @ ext) \<le> length ?s + 2"
      using ext(2) by (cases ls) (auto simp: lb)
    ultimately show ?thesis
      unfolding e using here j(1) ext b2 by (intro conjI exI [of _ "label_bytes l @ ext"] exI [of _ j]) auto
  qed
qed


section \<open>Writers\<close>

text \<open>
  A writer only appends, and what it appends depends on the buffer through its length alone;
  this is what lets \<open>encode_rdata\<close> fill in the length after the body.
\<close>

definition appender :: "(encoder \<Rightarrow> encoder) \<Rightarrow> bool" where
  "appender f \<longleftrightarrow> (\<forall>enc x. length x = length (buf enc) \<longrightarrow>
     (\<exists>ext. buf (f enc) = buf enc @ ext \<and> f (enc\<lparr>buf := x\<rparr>) = (f enc)\<lparr>buf := x @ ext\<rparr>))"

lemma appenderD:
  assumes "appender f" and "length x = length (buf enc)"
  obtains ext where "buf (f enc) = buf enc @ ext" and "f (enc\<lparr>buf := x\<rparr>) = (f enc)\<lparr>buf := x @ ext\<rparr>"
  using assms unfolding appender_def by blast

lemma appender_buf:
  assumes "appender f"
  obtains ext where "buf (f enc) = buf enc @ ext"
  using appenderD [OF assms refl] by blast

lemma appender_length: "appender f \<Longrightarrow> length (buf enc) \<le> length (buf (f enc))"
  by (erule appender_buf [of f enc]) simp

lemma appender_comp:
  assumes "appender f" and "appender g"
  shows "appender (\<lambda>enc. g (f enc))"
  unfolding appender_def
proof (intro allI impI)
  fix enc :: encoder and x :: bytes
  assume len: "length x = length (buf enc)"
  obtain e1 where 1: "buf (f enc) = buf enc @ e1" "f (enc\<lparr>buf := x\<rparr>) = (f enc)\<lparr>buf := x @ e1\<rparr>"
    using appenderD [OF assms(1) len] .
  have "length (x @ e1) = length (buf (f enc))" using len 1(1) by simp
  from appenderD [OF assms(2) this] obtain e2 where
    2: "buf (g (f enc)) = buf (f enc) @ e2" "g ((f enc)\<lparr>buf := x @ e1\<rparr>) = (g (f enc))\<lparr>buf := (x @ e1) @ e2\<rparr>" .
  show "\<exists>ext. buf (g (f enc)) = buf enc @ ext \<and> g (f (enc\<lparr>buf := x\<rparr>)) = (g (f enc))\<lparr>buf := x @ ext\<rparr>"
    using 1 2 by (intro exI [of _ "e1 @ e2"]) simp
qed

lemma appender_extend [intro, simp]: "appender (extend bs)"
  by (auto simp: appender_def extend_def)

lemma appender_push [intro, simp]: "appender (push b)"
  by (auto simp: appender_def push_def)

lemma appender_fold: "(\<And>x. x \<in> set xs \<Longrightarrow> appender (f x)) \<Longrightarrow> appender (fold f xs)"
proof (induction xs)
  case (Cons x xs)
  then have "appender (\<lambda>enc. fold f xs (f x enc))" by (auto intro: appender_comp [of "f x" "fold f xs"])
  then show ?case by (simp add: o_def)
qed (simp add: appender_def)

lemma appender_encode_labels [intro, simp]: "appender (encode_labels ls)"
proof (induction ls)
  case Nil
  have "encode_labels [] = push 0" by (rule ext) simp
  then show ?case by simp
next
  case (Cons l ls)
  show ?case unfolding appender_def
  proof (intro allI impI)
    fix enc :: encoder and x :: bytes
    assume len: "length x = length (buf enc)"
    let ?s = "join ''.'' (l # ls)"
    show "\<exists>ext. buf (encode_labels (l # ls) enc) = buf enc @ ext \<and>
        encode_labels (l # ls) (enc\<lparr>buf := x\<rparr>) = (encode_labels (l # ls) enc)\<lparr>buf := x @ ext\<rparr>"
    proof (cases "name_offsets enc ?s")
      case (Some off)
      then show ?thesis by (simp add: extend_def)
    next
      case None
      define e1 where "e1 = extend (label_bytes l) (if length (buf enc) \<le> 0x3FFF
         then enc\<lparr>name_offsets := (name_offsets enc)(?s \<mapsto> of_nat (length (buf enc)))\<rparr> else enc)"
      have "length (x @ label_bytes l) = length (buf e1)" using len by (simp add: e1_def)
      from appenderD [OF Cons.IH this] obtain ext where
        ext: "buf (encode_labels ls e1) = buf e1 @ ext"
          "encode_labels ls (e1\<lparr>buf := x @ label_bytes l\<rparr>) = (encode_labels ls e1)\<lparr>buf := (x @ label_bytes l) @ ext\<rparr>" .
      have "encode_labels (l # ls) enc = encode_labels ls e1"
        using None by (simp add: e1_def)
      moreover have "encode_labels (l # ls) (enc\<lparr>buf := x\<rparr>) = encode_labels ls (e1\<lparr>buf := x @ label_bytes l\<rparr>)"
        using None len by (simp add: e1_def extend_def)
      moreover have "buf e1 = buf enc @ label_bytes l" by (simp add: e1_def)
      ultimately show ?thesis using ext
        by (intro exI [of _ "label_bytes l @ ext"]) (simp del: encode_labels.simps)
    qed
  qed
qed

lemma appender_encode_qname [intro, simp]: "appender (encode_qname s)"
proof -
  have "encode_qname s = (if s = [] then push 0 else encode_labels (split_on CHR ''.'' s))"
    by (rule ext) (simp add: encode_qname_def)
  then show ?thesis by simp
qed

lemma appender_encode_name_uncompressed [intro, simp]: "appender (encode_name_uncompressed s)"
proof -
  have "encode_name_uncompressed s = (if s = [] then push 0
      else (\<lambda>enc. push 0 (fold (\<lambda>l. extend (label_bytes l)) (split_on CHR ''.'' s) enc)))"
    by (rule ext) (simp add: encode_name_uncompressed_def)
  then show ?thesis by (simp add: appender_comp [OF appender_fold])
qed

text \<open>A length field filled in afterwards is a length field written first.\<close>

lemma encode_rdata_appender:
  fixes enc :: encoder
  assumes "appender f"
  defines "n \<equiv> length (buf (f (extend [0, 0] enc))) - (length (buf enc) + 2)"
  shows "encode_rdata f enc = f (extend (be_bytes 2 (of_nat n :: u16)) enc)"
proof -
  let ?x = "buf enc @ be_bytes 2 (of_nat n :: u16)"
  have zero: "be_bytes 2 (0 :: u16) = [0, 0]" by (simp add: be_bytes_2)
  obtain x0 x1 where x: "be_bytes 2 (of_nat n :: u16) = [x0, x1]" by (simp add: be_bytes_2)
  have "length ?x = length (buf (extend [0, 0] enc))" by simp
  from appenderD [OF assms(1) this] obtain ext where
    ext: "buf (f (extend [0, 0] enc)) = buf (extend [0, 0] enc) @ ext"
      "f ((extend [0, 0] enc)\<lparr>buf := ?x\<rparr>) = (f (extend [0, 0] enc))\<lparr>buf := ?x @ ext\<rparr>" .
  have "(buf enc @ 0 # 0 # ext)[length (buf enc) := x0, length (buf enc) + 1 := x1] = buf enc @ x0 # x1 # ext"
    by (simp add: list_update_append)
  moreover have "(extend [0, 0] enc)\<lparr>buf := ?x\<rparr> = extend (be_bytes 2 (of_nat n :: u16)) enc"
    by (simp add: extend_def)
  moreover have "length (buf (f (extend [0, 0] enc))) - length (buf (extend [0, 0] enc)) = n"
    by (simp add: n_def)
  ultimately show ?thesis
    using ext x unfolding encode_rdata_def zero Let_def by simp
qed


section \<open>The contract of a wire codec\<close>

text \<open>
  What a field of a message promises: its writer keeps the offset table right, and its reader
  returns the value (as \<open>emb\<close> embeds it in what the reader returns) and the position after it,
  whatever follows.
\<close>

locale codec =
  fixes wr :: "'a \<Rightarrow> encoder \<Rightarrow> encoder"
    and rd :: "bytes \<Rightarrow> nat \<Rightarrow> ('b \<times> nat) dns_result"
    and emb :: "'a \<Rightarrow> 'b"
    and wf :: "'a \<Rightarrow> bool"
  assumes write_appender: "appender (wr x)"
    and write_ok: "wf x \<Longrightarrow> enc_ok enc \<Longrightarrow> enc_ok (wr x enc)"
    and read_write: "wf x \<Longrightarrow> enc_ok enc \<Longrightarrow>
      rd (buf (wr x enc) @ ys) (length (buf enc)) = Ok (emb x, length (buf (wr x enc)))"

text \<open>A counted sequence of fields, the shape of every section of a message.\<close>

fun read_list :: "(bytes \<Rightarrow> nat \<Rightarrow> ('a \<times> nat) dns_result) \<Rightarrow> bytes \<Rightarrow> nat \<Rightarrow> nat \<Rightarrow> ('a list \<times> nat) dns_result"
  where
  "read_list rd b 0 p = Ok ([], p)"
| "read_list rd b (Suc k) p =
     obind (rd b p) (\<lambda>(x, q). obind (read_list rd b k q) (\<lambda>(xs, e). Ok (x # xs, e)))"

context codec
begin

lemma fold_write_ok: "list_all wf xs \<Longrightarrow> enc_ok enc \<Longrightarrow> enc_ok (fold wr xs enc)"
  by (induction xs arbitrary: enc) (auto intro: write_ok)

lemma fold_write_appender: "appender (fold wr xs)"
  by (intro appender_fold write_appender)

lemma read_list_fold_write:
  "list_all wf xs \<Longrightarrow> enc_ok enc \<Longrightarrow>
     read_list rd (buf (fold wr xs enc) @ ys) (length xs) (length (buf enc))
       = Ok (map emb xs, length (buf (fold wr xs enc)))"
proof (induction xs arbitrary: enc)
  case (Cons x xs)
  have wf: "wf x" "list_all wf xs" using Cons.prems by auto
  obtain ext where "buf (fold wr xs (wr x enc)) = buf (wr x enc) @ ext"
    using appender_buf [OF fold_write_appender] .
  with Cons.IH [OF wf(2) write_ok [OF wf(1) Cons.prems(2)]] read_write [OF wf(1) Cons.prems(2), of "ext @ ys"]
  show ?case by simp
qed simp

end


section \<open>Names are codecs\<close>

text \<open>
  The names that survive: at most 64 labels (the parser follows at most 64 pointers and a name
  may need one per label), none empty, none over 63 bytes, all of them UTF-8.
\<close>

definition wf_name :: "string \<Rightarrow> bool" where
  "wf_name s \<longleftrightarrow> s = [] \<or>
     length (split_on CHR ''.'' s) \<le> MAX_POINTER_JUMPS \<and> list_all wf_label (split_on CHR ''.'' s)"

lemma root_name: "parse_qname (b @ 0 # ys) (length b) = Ok ([], length b + 1)"
proof -
  have "name_at (b @ [0] @ ys) (length b) (map str_bytes []) 0 (length b + 1)"
    unfolding list.map by (intro name_at.root at_append_mid)
  from parse_qname_name_at [OF this] show ?thesis by simp
qed

lemma encode_qname_codec:
  assumes "wf_name s" and "enc_ok enc"
  shows "enc_ok (encode_qname s enc)"
    and "parse_qname (buf (encode_qname s enc) @ ys) (length (buf enc)) = Ok (s, length (buf (encode_qname s enc)))"
    and "length (buf (encode_qname s enc)) \<le> length (buf enc) + length s + 2"
proof -
  let ?ls = "split_on CHR ''.'' s"
  have "enc_ok (encode_qname s enc) \<and>
    parse_qname (buf (encode_qname s enc) @ ys) (length (buf enc)) = Ok (s, length (buf (encode_qname s enc))) \<and>
    length (buf (encode_qname s enc)) \<le> length (buf enc) + length s + 2"
  proof (cases "s = []")
    case True
    then show ?thesis using assms(2) by (auto simp: encode_qname_def root_name)
  next
    case False
    with assms(1) have wf: "\<forall>l \<in> set ?ls. wf_label l" "length ?ls \<le> MAX_POINTER_JUMPS"
      by (auto simp: wf_name_def list_all_iff)
    have e: "encode_qname s enc = encode_labels ?ls enc" using False by (simp add: encode_qname_def)
    from encode_labels_name_at [OF wf(1), of enc] assms(2) obtain j ext where
      ext: "buf (encode_labels ?ls enc) = buf enc @ ext" "length ext \<le> length s + 2"
      and j: "j \<le> length ?ls" "name_at (buf (encode_labels ?ls enc)) (length (buf enc)) (map str_bytes ?ls) j
         (length (buf (encode_labels ?ls enc)))"
      and off: "\<forall>s off. name_offsets (encode_labels ?ls enc) s = Some off \<longrightarrow>
         name_offsets enc s = Some off \<or> good_offset (buf (encode_labels ?ls enc)) s off"
      by (auto simp: enc_ok_def split: if_splits)
    have "parse_qname (buf (encode_labels ?ls enc) @ ys) (length (buf enc))
        = Ok (join ''.'' ?ls, length (buf (encode_labels ?ls enc)))"
      using parse_qname_name_at [OF name_at_extend [OF j(2)]] wf j(1) by auto
    moreover have "enc_ok (encode_labels ?ls enc)"
      using off assms(2) ext(1) unfolding enc_ok_def by (metis good_offset_extend)
    ultimately show ?thesis using e ext by simp
  qed
  then show "enc_ok (encode_qname s enc)"
    and "parse_qname (buf (encode_qname s enc) @ ys) (length (buf enc)) = Ok (s, length (buf (encode_qname s enc)))"
    and "length (buf (encode_qname s enc)) \<le> length (buf enc) + length s + 2"
    by blast+
qed

interpretation qn: codec encode_qname parse_qname "\<lambda>s. s" wf_name
  by unfold_locales (simp_all add: encode_qname_codec)

lemma buf_fold_extend: "buf (fold (\<lambda>x. extend (g x)) xs enc) = buf enc @ concat (map g xs)"
  by (induction xs arbitrary: enc) simp_all

lemma enc_ok_fold_extend: "enc_ok enc \<Longrightarrow> enc_ok (fold (\<lambda>x. extend (g x)) xs enc)"
  by (induction xs arbitrary: enc) auto

lemma name_at_labels:
  "\<forall>l \<in> set ls. wf_label l \<Longrightarrow>
     name_at (b @ concat (map label_bytes ls) @ [0]) (length b) (map str_bytes ls) 0
       (length b + length (concat (map label_bytes ls)) + 1)"
proof (induction ls arbitrary: b)
  case Nil
  show ?case by (simp add: name_at.root [unfolded Suc_eq_plus1 [symmetric]])
next
  case (Cons l ls)
  let ?b = "b @ label_bytes l @ concat (map label_bytes ls) @ [0]"
  have l: "wf_label l" and lb: "label_bytes l = of_nat (length (str_bytes l)) # str_bytes l"
    using Cons.prems label_bytes_wf by auto
  have "name_at ?b (length b) (str_bytes l # map str_bytes ls) 0
      (length (b @ label_bytes l) + length (concat (map label_bytes ls)) + 1)"
  proof (rule name_at.label)
    show "at ?b (length b) (of_nat (length (str_bytes l)) # str_bytes l)"
      unfolding lb by (rule at_append_mid)
    show "str_bytes l \<noteq> []" "length (str_bytes l) \<le> 63" using l by (auto simp: wf_label_def)
    show "name_at ?b (length b + 1 + length (str_bytes l)) (map str_bytes ls) 0
        (length (b @ label_bytes l) + length (concat (map label_bytes ls)) + 1)"
      using Cons.IH [of "b @ label_bytes l"] Cons.prems by (simp add: lb)
  qed
  then show ?case by (simp add: add.assoc)
qed

lemma length_labels:
  "ls \<noteq> [] \<Longrightarrow> \<forall>l \<in> set ls. wf_label l \<Longrightarrow>
     length (concat (map label_bytes ls)) = length (join ''.'' ls) + 1"
  by (induction ls rule: list_nonempty_induct) (auto simp: join_Cons label_bytes_wf)

lemma buf_encode_name_uncompressed:
  "s \<noteq> [] \<Longrightarrow> buf (encode_name_uncompressed s enc)
     = buf enc @ concat (map label_bytes (split_on CHR ''.'' s)) @ [0]"
  by (simp add: encode_name_uncompressed_def buf_fold_extend)

lemma encode_name_uncompressed_codec:
  assumes "wf_name s" and "enc_ok enc"
  shows "enc_ok (encode_name_uncompressed s enc)"
    and "parse_qname (buf (encode_name_uncompressed s enc) @ ys) (length (buf enc))
           = Ok (s, length (buf (encode_name_uncompressed s enc)))"
    and "length (buf (encode_name_uncompressed s enc)) \<le> length (buf enc) + length s + 2"
proof -
  show "enc_ok (encode_name_uncompressed s enc)"
    using assms(2) by (auto simp: encode_name_uncompressed_def intro: enc_ok_fold_extend)
  let ?ls = "split_on CHR ''.'' s"
  have "parse_qname (buf (encode_name_uncompressed s enc) @ ys) (length (buf enc))
       = Ok (s, length (buf (encode_name_uncompressed s enc))) \<and>
     length (buf (encode_name_uncompressed s enc)) \<le> length (buf enc) + length s + 2"
  proof (cases "s = []")
    case True
    then show ?thesis by (simp add: encode_name_uncompressed_def root_name)
  next
    case False
    with assms(1) have wf: "\<forall>l \<in> set ?ls. wf_label l" by (auto simp: wf_name_def list_all_iff)
    note e = buf_encode_name_uncompressed [OF False, of enc]
    have "parse_qname ((buf enc @ concat (map label_bytes ?ls) @ [0]) @ ys) (length (buf enc))
        = Ok (join ''.'' ?ls, length (buf enc) + length (concat (map label_bytes ?ls)) + 1)"
      using wf by (intro parse_qname_name_at [OF name_at_extend [OF name_at_labels]]) simp_all
    then show ?thesis
      using length_labels [OF split_on_nonempty wf] unfolding e by simp
  qed
  then show "parse_qname (buf (encode_name_uncompressed s enc) @ ys) (length (buf enc))
       = Ok (s, length (buf (encode_name_uncompressed s enc)))"
    and "length (buf (encode_name_uncompressed s enc)) \<le> length (buf enc) + length s + 2"
    by blast+
qed

interpretation un: codec encode_name_uncompressed parse_qname "\<lambda>s. s" wf_name
  by unfold_locales (simp_all add: encode_name_uncompressed_codec)

end
