(* ===== verification/Wire_Roundtrip.thy ===== *)
theory Wire_Roundtrip
  imports Wire_Names
begin

text \<open>
  Parsing what the encoder wrote.  Every record type is a codec in the sense of
  \<^verbatim>\<open>Wire_Names\<close>: its record data, written after anything, is read back by the arm of the
  parser for its type.  Questions, records and whole packets follow.
\<close>

section \<open>Reading behind a prefix\<close>

lemma read_u8_shift: "length xs \<le> k \<Longrightarrow> read_u8 (xs @ ys) k = read_u8 ys (k - length xs)"
  by (auto simp: read_u8_def nth_append)

lemma read_u16_shift: "length xs \<le> k \<Longrightarrow> read_u16 (xs @ ys) k = read_u16 ys (k - length xs)"
  by (auto simp: read_u16_def nth_append Suc_diff_le)

lemma read_u32_shift: "length xs \<le> k \<Longrightarrow> read_u32 (xs @ ys) k = read_u32 ys (k - length xs)"
  by (auto simp: read_u32_def nth_append Suc_diff_le less_diff_conv2)

lemma slice_shift:
  "length xs \<le> a \<Longrightarrow> a \<le> c \<Longrightarrow> slice (xs @ ys) a c = slice ys (a - length xs) (c - length xs)"
  by (auto simp: slice_def)

lemma read_cons_shift:
  "0 < k \<Longrightarrow> read_u8 (x # ys) k = read_u8 ys (k - 1)"
  "0 < k \<Longrightarrow> read_u16 (x # ys) k = read_u16 ys (k - 1)"
  "0 < k \<Longrightarrow> read_u32 (x # ys) k = read_u32 ys (k - 1)"
  "0 < a \<Longrightarrow> a \<le> c \<Longrightarrow> slice (x # ys) a c = slice ys (a - 1) (c - 1)"
  using read_u8_shift [of "[x]" k ys] read_u16_shift [of "[x]" k ys] read_u32_shift [of "[x]" k ys]
    slice_shift [of "[x]" a c ys]
  by simp_all

lemma read_here:
  "read_u8 (x # ys) 0 = Ok x"
  "read_u16 (be_bytes 2 v @ ys) 0 = Ok v"
  "read_u32 (be_bytes 4 w @ ys) 0 = Ok w"
  "slice (bs @ ys) 0 (length bs) = Ok bs"
  using at_read_u16 [of "be_bytes 2 v @ ys" 0 v] at_read_u32 [of "be_bytes 4 w @ ys" 0 w]
    at_append_mid [of "[]"]
  by (simp_all add: read_u8_def slice_def)

lemmas shift_simps =
  read_u8_shift read_u16_shift read_u32_shift slice_shift read_cons_shift read_here


section \<open>Record data\<close>

text \<open>The writer of a record's data, and the number of bytes it can take.\<close>

fun rdata_body :: "dns_record \<Rightarrow> encoder \<Rightarrow> encoder" where
  "rdata_body (A _ addr _) = extend (octets4 addr)"
| "rdata_body (AAAA _ addr _) = extend (octets6 addr)"
| "rdata_body (CNAME _ alias _) = encode_qname alias"
| "rdata_body (MX _ preference exchange _) = (\<lambda>e. encode_qname exchange (extend (be_bytes 2 preference) e))"
| "rdata_body (TXT _ text _) = encode_character_strings text"
| "rdata_body (NS _ nameserver _) = encode_qname nameserver"
| "rdata_body (SOA _ mname rname serial refresh retry expire minimum _) = (\<lambda>e.
     extend (be_bytes 4 minimum) (extend (be_bytes 4 expire) (extend (be_bytes 4 retry)
       (extend (be_bytes 4 refresh) (extend (be_bytes 4 serial) (encode_qname rname (encode_qname mname e)))))))"
| "rdata_body (SRV _ priority weight port target _) = (\<lambda>e.
     encode_name_uncompressed target (extend (be_bytes 2 port) (extend (be_bytes 2 weight)
       (extend (be_bytes 2 priority) e))))"
| "rdata_body (PTR _ ptrdname _) = encode_qname ptrdname"
| "rdata_body (CAA _ flags tag value _) = (\<lambda>e.
     extend (str_bytes value) (extend (take (min (length tag) 255) (str_bytes tag))
       (push (of_nat (min (length tag) 255)) (push flags e))))"
| "rdata_body (OPT _) = (\<lambda>e. e)"
| "rdata_body (DNSKEY _ flags protocol algorithm public_key _) = (\<lambda>e.
     extend public_key (push algorithm (push protocol (extend (be_bytes 2 flags) e))))"
| "rdata_body (RRSIG _ covered algorithm labels original_ttl expiration inception tag signer signature _) = (\<lambda>e.
     extend signature (encode_name_uncompressed signer (extend (be_bytes 2 tag)
       (extend (be_bytes 4 inception) (extend (be_bytes 4 expiration)
         (extend (be_bytes 4 original_ttl) (push labels (push algorithm (extend (be_bytes 2 covered) e)))))))))"
| "rdata_body (DS _ tag algorithm digest_type digest _) = (\<lambda>e.
     extend digest (push digest_type (push algorithm (extend (be_bytes 2 tag) e))))"
| "rdata_body (NSEC _ next_name type_bitmap _) = (\<lambda>e. extend type_bitmap (encode_name_uncompressed next_name e))"

fun rdata_size :: "dns_record \<Rightarrow> nat" where
  "rdata_size (TXT _ text _) = length text + length (chunks 255 (str_bytes text)) + 1"
| "rdata_size (CAA _ _ tag value _) = 2 + length tag + length value"
| "rdata_size (DNSKEY _ _ _ _ public_key _) = 4 + length public_key"
| "rdata_size (RRSIG _ _ _ _ _ _ _ _ signer signature _) = 18 + (length signer + 2) + length signature"
| "rdata_size (DS _ _ _ _ digest _) = 4 + length digest"
| "rdata_size (NSEC _ next_name type_bitmap _) = (length next_name + 2) + length type_bitmap"
| "rdata_size (A _ _ _) = 4"
| "rdata_size (AAAA _ _ _) = 16"
| "rdata_size (CNAME _ alias _) = length alias + 2"
| "rdata_size (MX _ _ exchange _) = 2 + (length exchange + 2)"
| "rdata_size (NS _ nameserver _) = length nameserver + 2"
| "rdata_size (SOA _ mname rname _ _ _ _ _ _) = (length mname + 2) + (length rname + 2) + 20"
| "rdata_size (SRV _ _ _ _ target _) = 6 + (length target + 2)"
| "rdata_size (PTR _ ptrdname _) = length ptrdname + 2"
| "rdata_size (OPT _) = 0"

text \<open>
  The record data that survives a round trip: its names are well formed, its texts are UTF-8
  where they are cut, a CAA tag fits its length byte.
\<close>

fun wf_rdata :: "dns_record \<Rightarrow> bool" where
  "wf_rdata (CNAME _ alias _) = wf_name alias"
| "wf_rdata (MX _ _ exchange _) = wf_name exchange"
| "wf_rdata (TXT _ text _) = list_all valid_utf8 (chunks 255 (str_bytes text))"
| "wf_rdata (NS _ nameserver _) = wf_name nameserver"
| "wf_rdata (SOA _ mname rname _ _ _ _ _ _) = (wf_name mname \<and> wf_name rname)"
| "wf_rdata (SRV _ _ _ _ target _) = wf_name target"
| "wf_rdata (PTR _ ptrdname _) = wf_name ptrdname"
| "wf_rdata (CAA _ _ tag value _) =
     (length tag \<le> 255 \<and> valid_utf8 (str_bytes tag) \<and> valid_utf8 (str_bytes value))"
| "wf_rdata (RRSIG _ _ _ _ _ _ _ _ signer _ _) = wf_name signer"
| "wf_rdata (NSEC _ next_name _ _) = wf_name next_name"
| "wf_rdata (A _ _ _) = True"
| "wf_rdata (AAAA _ _ _) = True"
| "wf_rdata (OPT _) = True"
| "wf_rdata (DNSKEY _ _ _ _ _ _) = True"
| "wf_rdata (DS _ _ _ _ _ _) = True"

definition wf_record :: "dns_record \<Rightarrow> bool" where
  "wf_record r \<longleftrightarrow> wf_name (domain r) \<and> wf_rdata r \<and> rdata_size r < 65536"

text \<open>Character strings.\<close>

definition text_bytes :: "string \<Rightarrow> bytes" where
  "text_bytes s = (if s = [] then [0] else concat (map (\<lambda>c. of_nat (length c) # c) (chunks 255 (str_bytes s))))"

lemma encode_character_strings_eq: "encode_character_strings s enc = extend (text_bytes s) enc"
proof -
  have "fold (\<lambda>c e. extend c (push (of_nat (length c)) e)) cs e
      = extend (concat (map (\<lambda>c. of_nat (length c) # c) cs)) e" for cs :: "bytes list" and e :: encoder
    by (induction cs arbitrary: e) (simp_all add: extend_def push_def)
  then show ?thesis by (simp add: encode_character_strings_def text_bytes_def extend_def push_def)
qed

lemma chunks_Nil [simp]: "chunks n [] = []"
  by (simp add: chunks.simps)

lemma concat_chunks: "0 < n \<Longrightarrow> concat (chunks n xs) = xs"
proof (induction n xs rule: chunks.induct)
  case (1 n xs)
  then show ?case by (cases "xs = []") (simp_all add: chunks.simps [of n xs])
qed

lemma chunks_size: "c \<in> set (chunks n xs) \<Longrightarrow> length c \<le> n"
proof (induction n xs rule: chunks.induct)
  case (1 n xs)
  then show ?case by (auto simp: chunks.simps [of n xs] split: if_splits)
qed

lemma length_text_bytes: "length (text_bytes s) \<le> length s + length (chunks 255 (str_bytes s)) + 1"
proof -
  have "length (concat (map (\<lambda>c. of_nat (length c) # c) cs)) = length (concat cs) + length cs"
    for cs :: "bytes list"
    by (induction cs) simp_all
  then show ?thesis by (simp add: text_bytes_def concat_chunks)
qed

lemma parse_chunks:
  "\<forall>c \<in> set cs. length c \<le> 255 \<Longrightarrow>
     parse_character_strings_loop (pre @ concat (map (\<lambda>c. of_nat (length c) # c) cs)) (length pre) acc
       = Ok (acc @ concat (map from_utf8_lossy cs))"
proof (induction cs arbitrary: pre acc)
  case Nil
  show ?case by (subst parse_character_strings_loop.simps) simp
next
  case (Cons c cs)
  let ?d = "pre @ concat (map (\<lambda>c. of_nat (length c) # c) (c # cs))"
  have "unat (of_nat (length c) :: u8) = length c" using Cons.prems by (simp add: unat_of_nat)
  then have "parse_character_strings_loop ?d (length pre) acc
      = parse_character_strings_loop ?d (length pre + 1 + length c) (acc @ from_utf8_lossy c)"
    by (subst parse_character_strings_loop.simps) (simp add: nth_append Let_def)
  also have "\<dots> = Ok ((acc @ from_utf8_lossy c) @ concat (map from_utf8_lossy cs))"
    using Cons.IH [of "pre @ of_nat (length c) # c" "acc @ from_utf8_lossy c"] Cons.prems by simp
  finally show ?case by simp
qed

lemma parse_text_bytes:
  assumes "list_all valid_utf8 (chunks 255 (str_bytes s))"
  shows "parse_character_strings (text_bytes s) = Ok s"
proof (cases "s = []")
  case True
  have "parse_character_strings_loop [0] 0 [] = Ok []"
    using parse_chunks [of "[[]]" "[]" "[]"] by (simp add: from_utf8_lossy_def)
  with True show ?thesis by (simp add: parse_character_strings_def text_bytes_def)
next
  case False
  have "map from_utf8_lossy (chunks 255 (str_bytes s)) = map bytes_str (chunks 255 (str_bytes s))"
    using assms by (auto simp: list_all_iff from_utf8_lossy_def lossy_valid)
  moreover have "concat (map bytes_str cs) = bytes_str (concat cs)" for cs :: "bytes list"
    by (induction cs) simp_all
  ultimately have "concat (map from_utf8_lossy (chunks 255 (str_bytes s))) = s"
    by (simp only: concat_chunks zero_less_numeral bytes_str_str_bytes)
  with False parse_chunks [of "chunks 255 (str_bytes s)" "[]" "[]"] chunks_size show ?thesis
    by (auto simp: parse_character_strings_def text_bytes_def)
qed


text \<open>The names, in the form the record data needs: what was appended, and how it reads.\<close>

lemma qname_ext:
  assumes "wf_name s" and "enc_ok enc"
  obtains bs where "buf (encode_qname s enc) = buf enc @ bs" and "enc_ok (encode_qname s enc)"
    and "length bs \<le> length s + 2" and "0 < length bs"
    and "\<And>ys. parse_qname (buf enc @ bs @ ys) (length (buf enc)) = Ok (s, length (buf enc) + length bs)"
proof -
  obtain bs where bs: "buf (encode_qname s enc) = buf enc @ bs"
    using appender_buf [OF appender_encode_qname] .
  note c = encode_qname_codec [OF assms, unfolded bs]
  have "0 < length bs"
    using parse_qname_bounds [OF c(2) [of "[]"]] by simp
  with bs c that show thesis by simp
qed

lemma uncompressed_ext:
  assumes "wf_name s" and "enc_ok enc"
  obtains bs where "buf (encode_name_uncompressed s enc) = buf enc @ bs"
    and "enc_ok (encode_name_uncompressed s enc)" and "length bs \<le> length s + 2"
    and "\<And>ys. parse_qname (buf enc @ bs @ ys) (length (buf enc)) = Ok (s, length (buf enc) + length bs)"
proof -
  obtain bs where bs: "buf (encode_name_uncompressed s enc) = buf enc @ bs"
    using appender_buf [OF appender_encode_name_uncompressed] .
  note c = encode_name_uncompressed_codec [OF assms, unfolded bs]
  with bs that show thesis by simp
qed

definition rdata_law :: "dns_record \<Rightarrow> encoder \<Rightarrow> bool" where
  "rdata_law r enc \<longleftrightarrow> (\<exists>bs. buf (rdata_body r enc) = buf enc @ bs \<and> enc_ok (rdata_body r enc) \<and>
     length bs \<le> rdata_size r \<and>
     (\<forall>ys. parse_rdata (buf enc @ bs @ ys) (record_type r) 1 (domain r) (ttl r) (length (buf enc)) (length bs)
        = Ok (Some r)))"

lemma rdata_lawI:
  assumes "buf (rdata_body r enc) = buf enc @ bs" and "enc_ok (rdata_body r enc)"
    and "length bs \<le> rdata_size r"
    and "\<And>ys. parse_rdata (buf enc @ bs @ ys) (record_type r) 1 (domain r) (ttl r) (length (buf enc)) (length bs)
        = Ok (Some r)"
  shows "rdata_law r enc"
  using assms unfolding rdata_law_def by blast

lemma rdata_law_fixed:
  assumes "enc_ok enc"
  shows "rdata_law (A d a4 t) enc" and "rdata_law (AAAA d a6 t) enc"
    and "rdata_law (DNSKEY d fl pr al key t) enc" and "rdata_law (DS d tag al dt digest t) enc"
proof -
  have "read_u32 (buf enc @ octets4 a4 @ ys) (length (buf enc)) = (Ok a4 :: u32 dns_result)" for ys
    by (simp add: shift_simps)
  then show "rdata_law (A d a4 t) enc"
    using assms by (intro rdata_lawI [of _ _ "octets4 a4"]) (auto simp: parse_rdata_def parse_a_def)
  have "slice (buf enc @ octets6 a6 @ ys) (length (buf enc)) (length (buf enc) + 16) = (Ok (octets6 a6) :: bytes dns_result)" for ys
    using at_slice [OF at_append_mid, of "buf enc" "octets6 a6" ys] by simp
  then show "rdata_law (AAAA d a6 t) enc"
    using assms by (intro rdata_lawI [of _ _ "octets6 a6"]) (auto simp: parse_rdata_def parse_aaaa_def type_codes)
  show "rdata_law (DNSKEY d fl pr al key t) enc"
    using assms
    by (intro rdata_lawI [of _ _ "be_bytes 2 fl @ pr # al # key"])
       (auto simp: parse_rdata_def parse_dnskey_def type_codes shift_simps)
  show "rdata_law (DS d tag al dt digest t) enc"
    using assms
    by (intro rdata_lawI [of _ _ "be_bytes 2 tag @ al # dt # digest"])
       (auto simp: parse_rdata_def parse_ds_def type_codes shift_simps)
qed

lemma rdata_law_text:
  assumes "enc_ok enc"
  shows "wf_rdata (TXT d s t) \<Longrightarrow> rdata_law (TXT d s t) enc"
    and "wf_rdata (CAA d fl tag val t) \<Longrightarrow> rdata_law (CAA d fl tag val t) enc"
proof -
  have "slice (buf enc @ text_bytes s @ ys) (length (buf enc)) (length (buf enc) + length (text_bytes s))
      = (Ok (text_bytes s) :: bytes dns_result)" for ys
    by (rule at_slice [OF at_append_mid])
  then show "rdata_law (TXT d s t) enc" if "wf_rdata (TXT d s t)"
    using assms that length_text_bytes [of s]
    by (intro rdata_lawI [of _ _ "text_bytes s"])
       (auto simp: encode_character_strings_eq parse_rdata_def parse_txt_def parse_text_bytes type_codes)
  show "rdata_law (CAA d fl tag val t) enc" if wf: "wf_rdata (CAA d fl tag val t)"
  proof -
    have n: "min (length tag) 255 = length tag" 
      and u: "unat (of_nat (length (str_bytes tag)) :: u8) = length (str_bytes tag)"
      using wf by (simp_all add: unat_of_nat)
    show ?thesis
      using assms wf
      by (intro rdata_lawI [of _ _ "fl # of_nat (length tag) # str_bytes tag @ str_bytes val"])
         (auto simp: n u parse_rdata_def parse_caa_def type_codes shift_simps Let_def
            simp flip: length_str_bytes)
  qed
qed

lemma rdata_law_names:
  assumes "enc_ok enc" and "wf_name s"
  shows "rdata_law (CNAME d s t) enc" and "rdata_law (NS d s t) enc" and "rdata_law (PTR d s t) enc"
    and "rdata_law (MX d pref s t) enc" and "rdata_law (SRV d prio wgt port s t) enc"
    and "rdata_law (NSEC d s bitmap t) enc"
    and "rdata_law (RRSIG d cov al lab ottl ex ince tag s sig t) enc"
proof -
  obtain bs where bs: "buf (encode_qname s enc) = buf enc @ bs" "enc_ok (encode_qname s enc)"
    "length bs \<le> length s + 2" "0 < length bs"
    "\<And>ys. parse_qname (buf enc @ bs @ ys) (length (buf enc)) = Ok (s, length (buf enc) + length bs)"
    using qname_ext [OF assms(2,1)] by metis
  then show "rdata_law (CNAME d s t) enc" "rdata_law (NS d s t) enc" "rdata_law (PTR d s t) enc"
    by (auto intro!: rdata_lawI [of _ _ bs]
        simp: parse_rdata_def parse_cname_def parse_ns_def parse_ptr_def type_codes)
next
  obtain bs where bs: "buf (encode_qname s (extend (be_bytes 2 pref) enc)) = buf (extend (be_bytes 2 pref) enc) @ bs"
    "enc_ok (encode_qname s (extend (be_bytes 2 pref) enc))" "length bs \<le> length s + 2" "0 < length bs"
    "\<And>ys. parse_qname (buf (extend (be_bytes 2 pref) enc) @ bs @ ys) (length (buf (extend (be_bytes 2 pref) enc)))
       = Ok (s, length (buf (extend (be_bytes 2 pref) enc)) + length bs)"
    using qname_ext [OF assms(2) enc_ok_extend [OF assms(1)]] by metis
  then show "rdata_law (MX d pref s t) enc"
    by (auto intro!: rdata_lawI [of _ _ "be_bytes 2 pref @ bs"]
        simp: parse_rdata_def parse_mx_def type_codes shift_simps)
next
  let ?e = "extend (be_bytes 2 port) (extend (be_bytes 2 wgt) (extend (be_bytes 2 prio) enc))"
  obtain bs where bs: "buf (encode_name_uncompressed s ?e) = buf ?e @ bs"
    "enc_ok (encode_name_uncompressed s ?e)" "length bs \<le> length s + 2"
    "\<And>ys. parse_qname (buf ?e @ bs @ ys) (length (buf ?e)) = Ok (s, length (buf ?e) + length bs)"
    using uncompressed_ext [OF assms(2) enc_ok_extend [OF enc_ok_extend [OF enc_ok_extend [OF assms(1)]]]] by metis
  then show "rdata_law (SRV d prio wgt port s t) enc"
    by (auto intro!: rdata_lawI [of _ _ "be_bytes 2 prio @ be_bytes 2 wgt @ be_bytes 2 port @ bs"]
        simp: parse_rdata_def parse_srv_def type_codes shift_simps)
next
  obtain bs where bs: "buf (encode_name_uncompressed s enc) = buf enc @ bs"
    "enc_ok (encode_name_uncompressed s enc)" "length bs \<le> length s + 2"
    "\<And>ys. parse_qname (buf enc @ bs @ ys) (length (buf enc)) = Ok (s, length (buf enc) + length bs)"
    using uncompressed_ext [OF assms(2,1)] by metis
  then show "rdata_law (NSEC d s bitmap t) enc"
    by (auto intro!: rdata_lawI [of _ _ "bs @ bitmap"]
        simp: parse_rdata_def parse_nsec_def type_codes shift_simps)
next
  let ?e = "extend (be_bytes 2 tag) (extend (be_bytes 4 ince) (extend (be_bytes 4 ex)
    (extend (be_bytes 4 ottl) (push lab (push al (extend (be_bytes 2 cov) enc))))))"
  have "enc_ok ?e" by (intro enc_ok_extend enc_ok_push assms(1))
  then obtain bs where bs: "buf (encode_name_uncompressed s ?e) = buf ?e @ bs"
    "enc_ok (encode_name_uncompressed s ?e)" "length bs \<le> length s + 2"
    "\<And>ys. parse_qname (buf ?e @ bs @ ys) (length (buf ?e)) = Ok (s, length (buf ?e) + length bs)"
    using uncompressed_ext [OF assms(2)] by metis
  then show "rdata_law (RRSIG d cov al lab ottl ex ince tag s sig t) enc"
    by (auto intro!: rdata_lawI [of _ _ "be_bytes 2 cov @ al # lab # be_bytes 4 ottl @ be_bytes 4 ex @
          be_bytes 4 ince @ be_bytes 2 tag @ bs @ sig"]
        simp: parse_rdata_def parse_rrsig_def type_codes shift_simps)
qed

lemma rdata_law_soa:
  assumes "enc_ok enc" and "wf_name m" and "wf_name r"
  shows "rdata_law (SOA d m r a b c e f t) enc"
proof -
  obtain bs where bs: "buf (encode_qname m enc) = buf enc @ bs" "enc_ok (encode_qname m enc)"
    "length bs \<le> length m + 2" "0 < length bs"
    "\<And>ys. parse_qname (buf enc @ bs @ ys) (length (buf enc)) = Ok (m, length (buf enc) + length bs)"
    using qname_ext [OF assms(2,1)] by metis
  let ?e = "encode_qname m enc"
  obtain cs where cs: "buf (encode_qname r ?e) = buf ?e @ cs" "enc_ok (encode_qname r ?e)"
    "length cs \<le> length r + 2" "0 < length cs"
    "\<And>ys. parse_qname (buf ?e @ cs @ ys) (length (buf ?e)) = Ok (r, length (buf ?e) + length cs)"
    using qname_ext [OF assms(3) bs(2)] by metis
  from bs cs show ?thesis
    by (auto intro!: enc_ok_extend rdata_lawI [of _ _ "bs @ cs @ be_bytes 4 a @ be_bytes 4 b @ be_bytes 4 c @
          be_bytes 4 e @ be_bytes 4 f"]
        simp: parse_rdata_def parse_soa_def type_codes shift_simps)
qed

lemma rdata_law: "wf_rdata r \<Longrightarrow> \<not> is_opt r \<Longrightarrow> enc_ok enc \<Longrightarrow> rdata_law r enc"
  by (cases r) (auto intro: rdata_law_fixed rdata_law_text rdata_law_names rdata_law_soa)


section \<open>Records\<close>

lemma appender_rdata_body [simp]: "appender (rdata_body r)"
proof (cases r)
  case (TXT d s t)
  then have "rdata_body r = extend (text_bytes s)"
    by (auto simp: encode_character_strings_eq)
  then show ?thesis by simp
next
  case (OPT u)
  then show ?thesis by (simp add: appender_def)
qed (simp_all add: appender_comp [OF _ appender_extend] appender_comp [OF _ appender_push]
      appender_comp [OF _ appender_encode_qname] appender_comp [OF _ appender_encode_name_uncompressed])

lemma encode_rdata_extend:
  "length bs < 65536 \<Longrightarrow>
     encode_rdata (extend bs) enc = extend bs (extend (be_bytes 2 (of_nat (length bs) :: u16)) enc)"
  by (simp add: encode_rdata_appender)

lemma encode_record_rdata:
  "\<not> is_opt r \<Longrightarrow> encode_record r enc =
     encode_rdata (rdata_body r) (encode_record_header (domain r) (record_type r) (ttl r) enc)"
  by (cases r) (simp_all add: encode_rdata_extend Let_def)

lemma appender_encode_record_header: "appender (encode_record_header d ty t)"
proof -
  have "encode_record_header d ty t = (\<lambda>enc. extend (be_bytes 4 t) (extend (be_bytes 2 (1 :: u16))
      (extend (be_bytes 2 ty) (encode_qname d enc))))"
    by (rule ext) (simp add: encode_record_header_def)
  then show ?thesis by (simp add: appender_comp [OF _ appender_extend])
qed

lemma parse_record_header:
  assumes "wf_name d" and "enc_ok enc" and "n < 65536" and "length bs = n"
  shows "parse_record (buf (extend (be_bytes 2 (of_nat n :: u16)) (encode_record_header d ty t enc)) @ bs @ ys)
      (length (buf enc))
    = obind (parse_rdata (buf (extend (be_bytes 2 (of_nat n :: u16)) (encode_record_header d ty t enc)) @ bs @ ys)
        ty 1 d t (length (buf (encode_record_header d ty t enc)) + 2) n)
       (\<lambda>r. Ok (r, length (buf (encode_record_header d ty t enc)) + 2 + n))"
proof -
  obtain ns where ns: "buf (encode_qname d enc) = buf enc @ ns"
    "\<And>ys. parse_qname (buf enc @ ns @ ys) (length (buf enc)) = Ok (d, length (buf enc) + length ns)"
    using qname_ext [OF assms(1,2)] by metis
  have n: "unat (of_nat n :: u16) = n" using assms(3) by (simp add: unat_of_nat)
  show ?thesis
    using assms(4) by (simp add: encode_record_header_def parse_record_def ns n shift_simps Let_def ac_simps)
qed

lemma encode_record_codec:
  assumes "wf_record r" and "enc_ok enc"
  shows "enc_ok (encode_record r enc)"
    and "parse_record (buf (encode_record r enc) @ ys) (length (buf enc))
       = Ok (Some r, length (buf (encode_record r enc)))"
proof -
  have "enc_ok (encode_record r enc) \<and> parse_record (buf (encode_record r enc) @ ys) (length (buf enc))
       = Ok (Some r, length (buf (encode_record r enc)))"
  proof (cases "is_opt r")
    case True
    then obtain u where r: "r = OPT u" by (cases r) auto
    have "parse_qname (buf enc @ 0 # zs) (length (buf enc)) = Ok ([], length (buf enc) + 1)" for zs
      by (rule root_name)
    then show ?thesis
      unfolding r using assms(2)
      by (auto simp: parse_record_def parse_rdata_def type_codes shift_simps Let_def intro!: enc_ok_extend enc_ok_push)
  next
    case False
    let ?h = "encode_record_header (domain r) (record_type r) (ttl r) enc"
    have wf: "wf_name (domain r)" "wf_rdata r" "rdata_size r < 65536"
      using assms(1) by (auto simp: wf_record_def)
    have okh: "enc_ok ?h"
      unfolding encode_record_header_def
      by (intro enc_ok_extend encode_qname_codec(1) wf(1) assms(2))
    define n where "n = length (buf (rdata_body r (extend [0, 0] ?h))) - (length (buf ?h) + 2)"
    let ?e = "extend (be_bytes 2 (of_nat n :: u16)) ?h"
    have e: "encode_record r enc = rdata_body r ?e"
      using encode_rdata_appender [OF appender_rdata_body, of r ?h] encode_record_rdata [OF False]
      by (simp add: n_def)
    from rdata_law [OF wf(2) False enc_ok_extend [OF okh]] obtain bs where
      bs: "buf (rdata_body r ?e) = buf ?e @ bs" "enc_ok (rdata_body r ?e)" "length bs \<le> rdata_size r"
      "\<And>ys. parse_rdata (buf ?e @ bs @ ys) (record_type r) 1 (domain r) (ttl r) (length (buf ?e)) (length bs)
         = Ok (Some r)"
      unfolding rdata_law_def by blast
    have len: "length bs = n"
    proof -
      have "length (buf ?e) = length (buf (extend [0, 0] ?h))" by simp
      from appenderD [OF appender_rdata_body this] obtain cs where
        "buf (rdata_body r (extend [0, 0] ?h)) = buf (extend [0, 0] ?h) @ cs"
        "rdata_body r ((extend [0, 0] ?h)\<lparr>buf := buf ?e\<rparr>) = (rdata_body r (extend [0, 0] ?h))\<lparr>buf := buf ?e @ cs\<rparr>" .
      moreover have "(extend [0, 0] ?h)\<lparr>buf := buf ?e\<rparr> = ?e" by (simp add: extend_def)
      ultimately have "bs = cs" "n = length cs" using bs(1) by (simp_all add: n_def)
      then show ?thesis by simp
    qed
    have "parse_record (buf ?e @ bs @ ys) (length (buf enc)) = Ok (Some r, length (buf ?h) + 2 + n)"
      using parse_record_header [OF wf(1) assms(2) _ len] bs(3,4) wf(3) len by simp
    then show ?thesis using bs(1,2) len e by simp
  qed
  then show "enc_ok (encode_record r enc)"
    and "parse_record (buf (encode_record r enc) @ ys) (length (buf enc))
       = Ok (Some r, length (buf (encode_record r enc)))"
    by blast+
qed

lemma appender_encode_rdata:
  assumes "appender f"
  shows "appender (encode_rdata f)"
  unfolding appender_def
proof (intro allI impI)
  fix enc :: encoder and x :: bytes
  assume len: "length x = length (buf enc)"
  let ?z = "extend [0, 0] enc"
  have "length (x @ [0, 0]) = length (buf ?z)" using len by simp
  from appenderD [OF assms this] obtain cs where cs: "buf (f ?z) = buf ?z @ cs"
    "f (?z\<lparr>buf := x @ [0, 0]\<rparr>) = (f ?z)\<lparr>buf := (x @ [0, 0]) @ cs\<rparr>" .
  let ?w = "be_bytes 2 (of_nat (length cs) :: u16)"
  have z: "?z\<lparr>buf := x @ [0, 0]\<rparr> = extend [0, 0] (enc\<lparr>buf := x\<rparr>)" by (simp add: extend_def)
  have 1: "encode_rdata f enc = f (extend ?w enc)"
    using encode_rdata_appender [OF assms, of enc] cs(1) by simp
  have 2: "encode_rdata f (enc\<lparr>buf := x\<rparr>) = f (extend ?w (enc\<lparr>buf := x\<rparr>))"
    using encode_rdata_appender [OF assms, of "enc\<lparr>buf := x\<rparr>"] cs(2) unfolding z by simp
  have "length (x @ ?w) = length (buf (extend ?w enc))" using len by simp
  from appenderD [OF assms this] obtain es where
    "buf (f (extend ?w enc)) = buf (extend ?w enc) @ es"
    "f ((extend ?w enc)\<lparr>buf := x @ ?w\<rparr>) = (f (extend ?w enc))\<lparr>buf := (x @ ?w) @ es\<rparr>" .
  moreover have "(extend ?w enc)\<lparr>buf := x @ ?w\<rparr> = extend ?w (enc\<lparr>buf := x\<rparr>)" by (simp add: extend_def)
  ultimately show "\<exists>ext. buf (encode_rdata f enc) = buf enc @ ext \<and>
      encode_rdata f (enc\<lparr>buf := x\<rparr>) = (encode_rdata f enc)\<lparr>buf := x @ ext\<rparr>"
    using 1 2 by (intro exI [of _ "?w @ es"]) simp
qed

lemma appender_encode_record: "appender (encode_record r)"
proof (cases "is_opt r")
  case True
  then obtain u where "r = OPT u" by (cases r) auto
  then have "encode_record r = (\<lambda>enc. extend (be_bytes 2 (0 :: u16)) (extend (be_bytes 4 (0 :: u32))
      (extend (be_bytes 2 u) (extend (be_bytes 2 TYPE_OPT) (push 0 enc)))))" by (intro ext) simp
  then show ?thesis by (simp add: appender_comp [OF _ appender_extend])
next
  case False
  then have "encode_record r = (\<lambda>enc. encode_rdata (rdata_body r)
      (encode_record_header (domain r) (record_type r) (ttl r) enc))"
    by (intro ext encode_record_rdata)
  then show ?thesis
    by (simp add: appender_comp [OF appender_encode_record_header appender_encode_rdata])
qed

interpretation rec: codec encode_record parse_record Some wf_record
  by unfold_locales (simp_all add: encode_record_codec appender_encode_record)


section \<open>Packets\<close>

text \<open>The sections of a packet are counted lists of questions and records.\<close>

definition read_question :: "bytes \<Rightarrow> nat \<Rightarrow> (dns_question \<times> nat) dns_result" where
  "read_question b p =
     obind (parse_qname b p) (\<lambda>(name, q).
       if length b < q + 4 then Err (Truncated ''question'')
       else obind (read_u16 b q) (\<lambda>ty. obind (read_u16 b (q + 2)) (\<lambda>cl.
         Ok (\<lparr>qname = name, qtype = ty, qclass = cl\<rparr>, q + 4))))"

lemma obind_assoc: "obind (obind m f) g = obind m (\<lambda>x. obind (f x) g)"
  by (cases m) auto

lemma parse_questions_read_list: "parse_questions b k p = read_list read_question b k p"
proof (induction k arbitrary: p)
  case (Suc k)
  then show ?case
    by (auto simp: read_question_def obind_assoc split_def intro!: obind_cong)
qed simp

lemma parse_section_read_list:
  "parse_section b k p = obind (read_list parse_record b k p) (\<lambda>(rs, e). Ok (List.map_filter id rs, e))"
proof (induction k arbitrary: p)
  case (Suc k)
  then show ?case
    by (auto simp: obind_assoc split_def map_filter_simps intro!: obind_cong split: option.splits)
qed (simp add: map_filter_simps)

definition wf_question :: "dns_question \<Rightarrow> bool" where
  "wf_question q \<longleftrightarrow> wf_name (qname q)"

lemma appender_encode_question: "appender (encode_question q)"
proof -
  have "encode_question q = (\<lambda>enc. extend (be_bytes 2 (qclass q)) (extend (be_bytes 2 (qtype q))
      (encode_qname (qname q) enc)))"
    by (rule ext) (simp add: encode_question_def)
  then show ?thesis by (simp add: appender_comp [OF _ appender_extend])
qed

lemma encode_question_codec:
  assumes "wf_question q" and "enc_ok enc"
  shows "enc_ok (encode_question q enc)"
    and "read_question (buf (encode_question q enc) @ ys) (length (buf enc))
       = Ok (q, length (buf (encode_question q enc)))"
proof -
  have wf: "wf_name (qname q)" using assms(1) by (simp add: wf_question_def)
  show "enc_ok (encode_question q enc)"
    unfolding encode_question_def by (intro enc_ok_extend encode_qname_codec(1) wf assms(2))
  obtain ns where ns: "buf (encode_qname (qname q) enc) = buf enc @ ns"
    "\<And>ys. parse_qname (buf enc @ ns @ ys) (length (buf enc)) = Ok (qname q, length (buf enc) + length ns)"
    using qname_ext [OF wf assms(2)] by metis
  show "read_question (buf (encode_question q enc) @ ys) (length (buf enc))
       = Ok (q, length (buf (encode_question q enc)))"
    by (simp add: encode_question_def read_question_def ns shift_simps)
qed

interpretation qu: codec encode_question read_question "\<lambda>q. q" wf_question
  by unfold_locales (simp_all add: encode_question_codec appender_encode_question)

text \<open>
  A packet that survives: its questions and records do, and its sections can be counted in 16
  bits.  The encoder writes the lengths of the sections and ignores the counts in the header, so
  the parsed header holds the lengths.
\<close>

definition wf_packet :: "dns_packet \<Rightarrow> bool" where
  "wf_packet p \<longleftrightarrow> list_all wf_question (questions p) \<and> list_all wf_record (answers p) \<and>
     list_all wf_record (authorities p) \<and> list_all wf_record (additionals p) \<and>
     length (questions p) < 65536 \<and> length (answers p) < 65536 \<and>
     length (authorities p) < 65536 \<and> length (additionals p) < 65536"

definition with_counts :: "dns_packet \<Rightarrow> dns_packet" where
  "with_counts p = p\<lparr>header := (header p)\<lparr>h_questions := of_nat (length (questions p)),
     h_answers := of_nat (length (answers p)), h_authorities := of_nat (length (authorities p)),
     h_additionals := of_nat (length (additionals p))\<rparr>\<rparr>"

lemma parse_section_encode:
  assumes "list_all wf_record rs" and "enc_ok enc"
  shows "parse_section (buf (fold encode_record rs enc) @ ys) (length rs) (length (buf enc))
     = Ok (rs, length (buf (fold encode_record rs enc)))"
  using rec.read_list_fold_write [OF assms]
  by (simp add: parse_section_read_list map_filter_def comp_def)

lemma from_bytes_to_bytes:
  assumes "wf_packet p"
  shows "from_bytes (to_bytes p) = Ok (with_counts p)"
proof -
  let ?h = "encode_header p \<lparr>buf = [], name_offsets = Map.empty\<rparr>"
  let ?q = "fold encode_question (questions p) ?h"
  let ?a = "fold encode_record (answers p) ?q"
  let ?u = "fold encode_record (authorities p) ?a"
  let ?d = "fold encode_record (additionals p) ?u"
  have wf: "list_all wf_question (questions p)" "list_all wf_record (answers p)"
    "list_all wf_record (authorities p)" "list_all wf_record (additionals p)"
    using assms by (auto simp: wf_packet_def)
  have h: "enc_ok ?h" by (simp add: enc_ok_def encode_header_def extend_def)
  note q = qu.fold_write_ok [OF wf(1) h]
  note a = rec.fold_write_ok [OF wf(2) q]
  note u = rec.fold_write_ok [OF wf(3) a]
  have hs: "buf ?h = be_bytes 2 (h_id (header p)) @ be_bytes 2 (h_flags (header p)) @
      be_bytes 2 (of_nat (length (questions p)) :: u16) @ be_bytes 2 (of_nat (length (answers p)) :: u16) @
      be_bytes 2 (of_nat (length (authorities p)) :: u16) @ be_bytes 2 (of_nat (length (additionals p)) :: u16)"
    by (simp add: encode_header_def)
  obtain qs as us ds where b: "buf ?q = buf ?h @ qs" "buf ?a = buf ?q @ as" "buf ?u = buf ?a @ us"
      "buf ?d = buf ?u @ ds"
    using appender_buf [OF qu.fold_write_appender] appender_buf [OF rec.fold_write_appender] by metis
  have tb: "to_bytes p = buf ?d" by (simp add: to_bytes_def encode_def)
  have 1: "parse_questions (buf ?d) (length (questions p)) 12 = Ok (questions p, length (buf ?q))"
    using qu.read_list_fold_write [OF wf(1) h, of "as @ us @ ds"] b hs by (simp add: parse_questions_read_list)
  have 2: "parse_section (buf ?d) (length (answers p)) (length (buf ?q)) = Ok (answers p, length (buf ?a))"
    using parse_section_encode [OF wf(2) q, of "us @ ds"] b by simp
  have 3: "parse_section (buf ?d) (length (authorities p)) (length (buf ?a)) = Ok (authorities p, length (buf ?u))"
    using parse_section_encode [OF wf(3) a, of ds] b by simp
  have 4: "parse_section (buf ?d) (length (additionals p)) (length (buf ?u)) = Ok (additionals p, length (buf ?d))"
    using parse_section_encode [OF wf(4) u, of "[]"] by simp
  have n: "unat (of_nat (length (questions p)) :: u16) = length (questions p)"
    "unat (of_nat (length (answers p)) :: u16) = length (answers p)"
    "unat (of_nat (length (authorities p)) :: u16) = length (authorities p)"
    "unat (of_nat (length (additionals p)) :: u16) = length (additionals p)"
    using assms by (simp_all add: wf_packet_def unat_of_nat)
  have r: "12 \<le> length (buf ?d)" "read_u16 (buf ?d) 0 = (Ok (h_id (header p)) :: u16 dns_result)"
    "read_u16 (buf ?d) 2 = (Ok (h_flags (header p)) :: u16 dns_result)"
    "read_u16 (buf ?d) 4 = (Ok (of_nat (length (questions p))) :: u16 dns_result)"
    "read_u16 (buf ?d) 6 = (Ok (of_nat (length (answers p))) :: u16 dns_result)"
    "read_u16 (buf ?d) 8 = (Ok (of_nat (length (authorities p))) :: u16 dns_result)"
    "read_u16 (buf ?d) 10 = (Ok (of_nat (length (additionals p))) :: u16 dns_result)"
    unfolding b hs by (simp_all add: shift_simps)
  show ?thesis
    unfolding tb from_bytes_def using r 1 2 3 4 n by (simp add: with_counts_def)
qed

end
