(* ===== verification/Wire_Props.thy ===== *)
theory Wire_Props
  imports Wire_Roundtrip
begin

text \<open>
  The properties of the wire format of \<^verbatim>\<open>src/dns\<close>: where parsing can panic, the bounds and the
  progress of the parser, the round trips of names, records and packets, character strings, and
  the size of a message sent over UDP.
\<close>

section \<open>Where parsing a packet can panic\<close>

lemma parse_questions_not_Panic: "parse_questions b k off \<noteq> Panic"
  by (induction k arbitrary: off) (auto simp: panic_simps split: if_splits prod.splits)

lemma parse_section_Panic:
  "parse_section b k off = Panic \<Longrightarrow> \<exists>p. off \<le> p \<and> panic_site b p"
proof (induction k arbitrary: off)
  case (Suc k)
  then consider "parse_record b off = Panic"
    | r e where "parse_record b off = Ok (r, e)" "parse_section b k e = Panic"
    by (auto simp: obind_eq_Panic split: prod.splits)
  then show ?case
  proof cases
    case 1
    then show ?thesis by (auto simp: parse_record_Panic_iff)
  next
    case 2
    from Suc.IH [OF 2(2)] parse_record_bounds [OF 2(1)] show ?thesis by (meson add_leD1 order_trans)
  qed
qed simp

lemma parse_section_mono: "parse_section b k off = Ok (rs, e) \<Longrightarrow> off \<le> e"
proof (induction k arbitrary: off rs)
  case (Suc k)
  then obtain r p rs' where "parse_record b off = Ok (r, p)" "parse_section b k p = Ok (rs', e)"
    by (auto split: prod.splits)
  with Suc.IH [of p rs'] parse_record_bounds [of b off r p] show ?case by simp
qed simp

lemma panic_site_bound: "panic_site b p \<Longrightarrow> p < length b"
  by (auto simp: panic_site_def dest!: parse_qname_bounds)

lemma from_bytes_Panic_site:
  assumes "from_bytes b = Panic"
  shows "\<exists>p. 12 \<le> p \<and> p < length b \<and> panic_site b p"
proof -
  from assms have len: "12 \<le> length b" by (auto simp: from_bytes_def split: if_splits)
  have r: "read_u16 b k \<noteq> Panic" if "k \<le> 10" for k
    using that len by (auto simp: read_u16_def)
  from assms len obtain nq q1 qs where q: "parse_questions b nq 12 = Ok (qs, q1)" and
    "(\<exists>k. parse_section b k q1 = Panic) \<or>
     (\<exists>k rs q2. parse_section b k q1 = Ok (rs, q2) \<and> (\<exists>k. parse_section b k q2 = Panic)) \<or>
     (\<exists>k rs q2 k' rs' q3. parse_section b k q1 = Ok (rs, q2) \<and> parse_section b k' q2 = Ok (rs', q3) \<and>
        (\<exists>k. parse_section b k q3 = Panic))"
    by (auto simp: from_bytes_def obind_eq_Panic r parse_questions_not_Panic split: prod.splits) blast+
  moreover have "12 \<le> q1" "q1 \<le> length b"
    using parse_questions_bounds [OF q len] by auto
  ultimately obtain p where "q1 \<le> p" "panic_site b p"
    by (auto dest!: parse_section_Panic parse_section_mono) (meson order_trans)+
  with \<open>12 \<le> q1\<close> panic_site_bound show ?thesis by (meson order_trans)
qed



text \<open>A 24-byte response that makes the parser panic: an NSEC record with no record data.\<close>

definition panic_packet :: bytes where
  "panic_packet = [0, 0, 0, 0, 0, 0, 0, 1, 0, 0, 0, 0, 0, 0, 47, 0, 1, 0, 0, 0, 0, 0, 0, 0]"

lemma panic_packet_panics: "from_bytes panic_packet = Panic"
  by code_simp


text \<open>
  A packet that parses has a full header, as many questions as its header says, and at most
  as many records per section as its header says; the message is at least as long as that many
  minimal questions (5 bytes) and records (11 bytes) need, so the counts of a short message cannot
  make the parser do more work than the message is long.
\<close>

theorem from_bytes_bounds:
  assumes "from_bytes b = Ok p"
  shows "length (questions p) = unat (h_questions (header p)) \<and>
    length (answers p) \<le> unat (h_answers (header p)) \<and>
    length (authorities p) \<le> unat (h_authorities (header p)) \<and>
    length (additionals p) \<le> unat (h_additionals (header p)) \<and>
    12 + 5 * unat (h_questions (header p)) + 11 * (unat (h_answers (header p))
      + unat (h_authorities (header p)) + unat (h_additionals (header p))) \<le> length b"
  using from_bytes_header [OF assms] by blast

definition query_bytes :: bytes where
  "query_bytes = [0, 7, 1, 0, 0, 1, 0, 0, 0, 0, 0, 0, 1, 97, 0, 0, 1, 0, 1]"

definition query_packet :: dns_packet where
  "query_packet =
     \<lparr>header = \<lparr>h_id = 7, h_flags = 0x0100, h_questions = 1, h_answers = 0, h_authorities = 0,
        h_additionals = 0\<rparr>,
      questions = [\<lparr>qname = ''a'', qtype = TYPE_A, qclass = 1\<rparr>],
      answers = [], authorities = [], additionals = []\<rparr>"

lemma query_parses: "from_bytes query_bytes = Ok query_packet"
  by code_simp

theorem from_bytes_bounds_witness:
  "from_bytes query_bytes = Ok query_packet \<and> 12 + 5 * unat (h_questions (header query_packet)) \<le> 19"
  using from_bytes_bounds [OF query_parses] query_parses by (simp add: query_bytes_def)

text \<open>
  \<^verbatim>\<open>parse_qname\<close> never panics; when it returns, the position it returns is inside the message
  and after the position it started from, and the name is at most 260 times as long as the message
  (64 pointers, and at most 4 bytes of name per byte read).
\<close>

theorem parse_qname_safe:
  "case parse_qname b p of
     Ok (s, q) \<Rightarrow> p < q \<and> q \<le> length b \<and> length s \<le> 260 * length b
   | Err e \<Rightarrow> True
   | Panic \<Rightarrow> False"
  using parse_qname_not_Panic [of b p]
  by (cases "parse_qname b p") (auto dest: parse_qname_bounds parse_qname_length)


section \<open>Round trips\<close>

text \<open>
  Compression is right: a name written by \<^verbatim>\<open>encode_qname\<close> after anything the encoder has
  written is read back by \<^verbatim>\<open>parse_qname\<close>, and the offset table stays right.
\<close>

theorem encode_qname_parse_qname:
  assumes "wf_name s" and "enc_ok enc"
  shows "enc_ok (encode_qname s enc) \<and>
    parse_qname (buf (encode_qname s enc) @ ys) (length (buf enc)) = Ok (s, length (buf (encode_qname s enc)))"
  using encode_qname_codec [OF assms] by blast

definition empty_encoder :: encoder where
  "empty_encoder = \<lparr>buf = [], name_offsets = Map.empty\<rparr>"

lemma enc_ok_empty: "enc_ok empty_encoder"
  by (simp add: enc_ok_def empty_encoder_def)

theorem encode_qname_parse_qname_witness:
  "parse_qname (buf (encode_qname ''www.a.b'' (encode_qname ''a.b'' empty_encoder)) @ []) 5
     = Ok (''www.a.b'', 11)"
proof -
  have wf: "wf_name ''www.a.b''" "wf_name ''a.b''" by code_simp+
  have len: "length (buf (encode_qname ''a.b'' empty_encoder)) = 5"
    "length (buf (encode_qname ''www.a.b'' (encode_qname ''a.b'' empty_encoder))) = 11"
    by code_simp+
  from encode_qname_parse_qname [OF wf(1), of "encode_qname ''a.b'' empty_encoder" "[]"]
  show ?thesis using encode_qname_codec(1) [OF wf(2) enc_ok_empty] by (simp add: len)
qed

text \<open>
  Every record type the server models survives encoding and parsing: a well-formed record
  written after anything is read back, and parsing stops where the record ends.
\<close>

theorem encode_record_parse_record:
  assumes "wf_record r" and "enc_ok enc"
  shows "parse_record (buf (encode_record r enc) @ ys) (length (buf enc))
    = Ok (Some r, length (buf (encode_record r enc)))"
  using encode_record_codec [OF assms] by blast

theorem encode_record_parse_record_witness:
  "parse_record (buf (encode_record (MX ''a.b'' 10 ''mx.a.b'' 300) empty_encoder) @ [7]) 0
     = Ok (Some (MX ''a.b'' 10 ''mx.a.b'' 300),
           length (buf (encode_record (MX ''a.b'' 10 ''mx.a.b'' 300) empty_encoder)))"
proof -
  have "wf_record (MX ''a.b'' 10 ''mx.a.b'' 300)" by code_simp
  from encode_record_parse_record [OF this enc_ok_empty, of "[7]"]
  show ?thesis by (simp only: empty_encoder_def encoder.simps list.size)
qed

text \<open>
  C1: a well-formed packet is what parsing its encoding gives, with the counts of the header set
  to the lengths of the sections.
\<close>

theorem from_bytes_to_bytes_id:
  assumes "wf_packet p"
  shows "from_bytes (to_bytes p) = Ok (with_counts p)"
  by (rule from_bytes_to_bytes [OF assms])

definition reply_packet :: dns_packet where
  "reply_packet =
     \<lparr>header = \<lparr>h_id = 7, h_flags = 0x8180, h_questions = 1, h_answers = 0, h_authorities = 0,
        h_additionals = 0\<rparr>,
      questions = [\<lparr>qname = ''w.a'', qtype = TYPE_A, qclass = 1\<rparr>],
      answers = [CNAME ''w.a'' ''a'' 60, A ''a'' 0x7F000001 60, TXT ''a'' ''hi'' 5,
        AAAA ''a'' 1 60, SRV ''s.a'' 1 2 3 ''w.a'' 9, CAA ''a'' 0 ''issue'' ''x'' 60],
      authorities = [SOA ''a'' ''ns.a'' ''root.a'' 1 2 3 4 5 60, NS ''a'' ''ns.a'' 60],
      additionals = [OPT 1232, DNSKEY ''a'' 257 3 15 [1, 2] 60, NSEC ''a'' ''b'' [0] 60]\<rparr>"

theorem from_bytes_to_bytes_id_witness:
  "from_bytes (to_bytes reply_packet) = Ok (with_counts reply_packet)"
proof -
  have "wf_packet reply_packet" by code_simp
  then show ?thesis by (rule from_bytes_to_bytes_id)
qed


section \<open>Character strings\<close>

lemma lossy_append: "valid_utf8 xs \<Longrightarrow> from_utf8_lossy_bytes (xs @ ys) = xs @ from_utf8_lossy_bytes ys"
proof (induction xs rule: valid_utf8.induct)
  case (1 xs)
  show ?case
  proof (cases "xs = []")
    case False
    let ?n = "snd (utf8_chunk xs)"
    from "1.prems" False have ok: "fst (utf8_chunk xs)" and rest: "valid_utf8 (drop ?n xs)"
      by (simp_all add: valid_utf8.simps [of xs])
    have split: "xs @ ys = take ?n xs @ (drop ?n xs @ ys)" by simp
    have chunk: "utf8_chunk (xs @ ys) = utf8_chunk xs"
      unfolding split by (rule utf8_chunk_True_append [OF ok False])
    have le: "?n \<le> length xs" by (rule utf8_chunk_True_length [OF ok False])
    show ?thesis
      using False ok le "1.IH" [OF False rest]
      by (simp add: from_utf8_lossy_bytes.simps [of "xs @ ys"] chunk)
  qed simp
qed

lemma character_strings_pieces:
  "parse_character_strings (drop (length (buf enc)) (buf (encode_character_strings s enc)))
     = Ok (concat (map from_utf8_lossy (chunks 255 (str_bytes s))))"
proof (cases "s = []")
  case True
  have "parse_character_strings_loop [0] 0 [] = Ok []"
    using parse_chunks [of "[[]]" "[]" "[]"] by (simp add: from_utf8_lossy_def)
  with True show ?thesis
    by (simp add: encode_character_strings_eq text_bytes_def parse_character_strings_def)
next
  case False
  then show ?thesis
    using parse_chunks [of "chunks 255 (str_bytes s)" "[]" "[]"] chunks_size
    by (auto simp: encode_character_strings_eq text_bytes_def parse_character_strings_def)
qed

text \<open>
  Reading back a TXT text gives its 255-byte pieces, each decoded on its own.
\<close>

theorem character_strings_roundtrip:
  "parse_character_strings (drop (length (buf enc)) (buf (encode_character_strings s enc)))
     = Ok (concat (map from_utf8_lossy (chunks 255 (str_bytes s))))"
  by (rule character_strings_pieces)

text \<open>A text in which a two-byte character crosses the boundary of the first piece.\<close>

definition split_text :: string where
  "split_text = replicate 254 CHR ''x'' @ [CHR 0xC3, CHR 0xA9]"

lemma split_text_bytes: "str_bytes split_text = replicate 254 0x78 @ [0xC3, 0xA9]"
  by (simp add: split_text_def str_bytes_def of_char_def)

lemma valid_xs: "valid_utf8 (replicate n 0x78)"
  by (rule valid_utf8_ascii) (simp add: list_all_length)

lemma chunks_split_text:
  "chunks 255 (str_bytes split_text) = [replicate 254 0x78 @ [0xC3], [0xA9]]"
  by (simp add: split_text_bytes chunks.simps [of _ "_ @ _"] chunks.simps [of _ "_ # _"])

text \<open>
  A TXT text in which a multi-byte character crosses a 255-byte boundary does not come back,
  although it is valid UTF-8.
\<close>

theorem character_strings_lossy:
  "valid_utf8 (str_bytes split_text) \<and>
   parse_character_strings (drop (length (buf enc)) (buf (encode_character_strings split_text enc)))
     \<noteq> Ok split_text"
proof
  have "valid_utf8 [0xC3, 0xA9]" by code_simp
  then show "valid_utf8 (str_bytes split_text)"
    by (simp add: split_text_bytes valid_utf8_append [OF valid_xs])
  have l: "from_utf8_lossy [0xC3] = bytes_str replacement" "from_utf8_lossy [0xA9] = bytes_str replacement"
    by code_simp+
  have "from_utf8_lossy (replicate 254 0x78 @ [0xC3]) = bytes_str (replicate 254 0x78) @ bytes_str replacement"
    using l by (simp add: from_utf8_lossy_def lossy_append [OF valid_xs])
  moreover have "parse_character_strings (drop (length (buf enc)) (buf (encode_character_strings split_text enc)))
     = Ok (concat (map from_utf8_lossy (chunks 255 (str_bytes split_text))))"
    by (rule character_strings_pieces)
  moreover have "length split_text = 256" by (simp add: split_text_def)
  ultimately show "parse_character_strings (drop (length (buf enc)) (buf (encode_character_strings split_text enc)))
     \<noteq> Ok split_text"
    using l by (auto simp: chunks_split_text replacement_def dest: arg_cong [of _ _ length])
qed

section \<open>Messages sent over UDP\<close>

lemma length_label_bytes: "length (label_bytes l) \<le> 1 + length l"
  by (simp add: label_bytes_def Let_def)

lemma length_encode_labels:
  "length (buf (encode_labels ls enc)) \<le> length (buf enc) + length (join ''.'' ls) + (if ls = [] then 1 else 2)"
proof (induction ls arbitrary: enc)
  case (Cons l ls)
  show ?case
  proof (cases "name_offsets enc (join ''.'' (l # ls))")
    case None
    define e1 where "e1 = extend (label_bytes l) (if length (buf enc) \<le> 0x3FFF
         then enc\<lparr>name_offsets := (name_offsets enc)(join ''.'' (l # ls) \<mapsto> of_nat (length (buf enc)))\<rparr> else enc)"
    have "encode_labels (l # ls) enc = encode_labels ls e1" using None by (simp add: e1_def)
    moreover have "length (buf e1) \<le> length (buf enc) + 1 + length l"
      using length_label_bytes [of l] by (simp add: e1_def)
    ultimately show ?thesis using Cons.IH [of e1] by (cases ls) auto
  qed simp
qed simp

lemma length_encode_qname: "length (buf (encode_qname s enc)) \<le> length (buf enc) + length s + 2"
  using length_encode_labels [of "split_on CHR ''.'' s" enc] by (simp add: encode_qname_def)

lemma length_encode_questions:
  "length (buf (fold encode_question qs enc)) \<le> length (buf enc) + sum_list (map (\<lambda>q. length (qname q) + 6) qs)"
proof (induction qs arbitrary: enc)
  case (Cons q qs)
  have "length (buf (encode_question q enc)) \<le> length (buf enc) + length (qname q) + 6"
    using length_encode_qname [of "qname q" enc] by (simp add: encode_question_def)
  with Cons.IH [of "encode_question q enc"] show ?case by simp
qed simp

lemma length_encode_opts:
  "list_all is_opt rs \<Longrightarrow> length (buf (fold encode_record rs enc)) = length (buf enc) + 11 * length rs"
proof (induction rs arbitrary: enc)
  case (Cons r rs)
  then obtain u where "r = OPT u" by (cases r) auto
  with Cons show ?case by simp
qed simp

lemma length_encode_header: "length (buf (encode_header p enc)) = length (buf enc) + 12"
  by (simp add: encode_header_def)

lemma udp_limit_bounds: "512 \<le> udp_limit p \<and> udp_limit p \<le> 1232"
  by (auto simp: udp_limit_def clamp_def MAX_UDP_SIZE_def MAX_EDNS_UDP_def split: option.splits)

lemma length_truncated:
  assumes "list_all is_opt (additionals p)"
  shows "length (to_bytes (truncate_packet p))
     \<le> 12 + sum_list (map (\<lambda>q. length (qname q) + 6) (questions p)) + 11 * length (additionals p)"
  using length_encode_questions [of "questions p"] assms
  by (simp add: to_bytes_def encode_def truncate_packet_def length_encode_opts length_encode_header)
     (metis (no_types, lifting) add.right_neutral length_encode_header list.size(3) encoder.select_convs(1) plus_nat.add_0)

text \<open>
  C24: a response with OPT records only in its additional section, whose questions fit 512 bytes,
  is never sent over the client's UDP limit, and the limit is between 512 and 1232 bytes.
\<close>

theorem to_udp_bytes_limit:
  assumes "list_all is_opt (additionals p)"
    and "12 + sum_list (map (\<lambda>q. length (qname q) + 6) (questions p)) + 11 * length (additionals p) \<le> 512"
  shows "length (to_udp_bytes p) \<le> udp_limit p \<and> 512 \<le> udp_limit p \<and> udp_limit p \<le> 1232"
  using length_truncated [OF assms(1)] assms(2) udp_limit_bounds [of p]
  by (auto simp: to_udp_bytes_def Let_def)

definition wide_packet :: dns_packet where
  "wide_packet = query_packet\<lparr>answers := replicate 40 (A ''a'' 1 60)\<rparr>"

theorem to_udp_bytes_limit_witness:
  "length (to_udp_bytes wide_packet) \<le> udp_limit wide_packet"
  using to_udp_bytes_limit [of wide_packet] by (simp add: wide_packet_def query_packet_def)

text \<open>
  C17: truncation drops only answers and authorities, so additional records alone can push a
  message over the limit: a packet of \<open>n\<close> OPT records is sent with \<open>12 + 11 * n\<close> bytes, whatever
  the limit is.
\<close>

definition opts_packet :: "nat \<Rightarrow> u16 \<Rightarrow> dns_packet" where
  "opts_packet n u =
     \<lparr>header = \<lparr>h_id = 0, h_flags = 0, h_questions = 0, h_answers = 0, h_authorities = 0,
        h_additionals = of_nat n\<rparr>,
      questions = [], answers = [], authorities = [], additionals = replicate n (OPT u)\<rparr>"

theorem to_udp_bytes_over_limit: "length (to_udp_bytes (opts_packet n u)) = 12 + 11 * n"
  by (simp add: to_udp_bytes_def Let_def to_bytes_def encode_def truncate_packet_def opts_packet_def
      length_encode_opts length_encode_header list_all_length del: fold_replicate)

text \<open>
  C23: what the client receives over UDP parses; it is the whole packet when that fits the limit,
  and otherwise the questions and additional records with the TC bit set.
\<close>

theorem to_udp_bytes_parses:
  assumes "wf_packet p"
  shows "from_bytes (to_udp_bytes p)
    = Ok (if length (to_bytes p) \<le> udp_limit p then with_counts p else with_counts (truncate_packet p)) \<and>
    bit (h_flags (header (truncate_packet p))) 9"
proof
  have "wf_packet (truncate_packet p)" using assms by (simp add: wf_packet_def truncate_packet_def)
  with assms show "from_bytes (to_udp_bytes p)
    = Ok (if length (to_bytes p) \<le> udp_limit p then with_counts p else with_counts (truncate_packet p))"
    by (simp add: to_udp_bytes_def Let_def from_bytes_to_bytes)
  show "bit (h_flags (header (truncate_packet p))) 9"
    by (simp add: truncate_packet_def bit_simps)
qed

lemma length_wide_packet: "512 < length (to_bytes wide_packet)"
  by code_simp

theorem to_udp_bytes_parses_witness:
  "from_bytes (to_udp_bytes wide_packet) = Ok (with_counts (truncate_packet wide_packet))"
proof -
  have wf: "wf_packet wide_packet" by code_simp
  have "udp_limit wide_packet = 512" by code_simp
  with to_udp_bytes_parses [OF wf] length_wide_packet show ?thesis by simp
qed

end
