(* ===== verification/Zones.thy ===== *)
theory Zones
  imports Dns_Record "HOL-Library.Multiset"
begin

text \<open>
  The authoritative data and the forwarding rules of \<^verbatim>\<open>src/config.rs\<close>: a zone, the set of zones
  with its longest-suffix search, and the conditional forwarding rules with theirs.

  A \<^verbatim>\<open>HashMap<String, Vec<DnsRecord>>\<close> is an association list; its order stands for the order in
  which the map is iterated, its keys are distinct (\<open>wf_zone\<close>).
\<close>

section \<open>Zones\<close>

type_synonym zone = "(string \<times> dns_record list) list"

record auth_zone =
  origin :: string
  records :: zone

record zone_set =
  zones :: "auth_zone list"

definition wf_zone :: "zone \<Rightarrow> bool" where
  "wf_zone z \<longleftrightarrow> distinct (map fst z)"

text \<open>\<^verbatim>\<open>records.values().flatten()\<close>\<close>

definition all_records :: "zone \<Rightarrow> dns_record list" where
  "all_records z = concat (map snd z)"

definition zone_set_new :: "auth_zone list \<Rightarrow> zone_set" where
  "zone_set_new zs = \<lparr>zones = sort_key (\<lambda>z. - int (length (origin z))) zs\<rparr>"

definition zone_set_from_single :: "string \<Rightarrow> zone \<Rightarrow> zone_set" where
  "zone_set_from_single orig recs = zone_set_new [\<lparr>origin = orig, records = recs\<rparr>]"

fun soa_domain :: "dns_record \<Rightarrow> string option" where
  "soa_domain (SOA d _ _ _ _ _ _ _ _) = Some d"
| "soa_domain _ = None"

definition inferred_origin :: "zone \<Rightarrow> string" where
  "inferred_origin recs = (case find_map soa_domain (all_records recs) of Some d \<Rightarrow> d | None \<Rightarrow> [])"

definition zone_set_from_records :: "zone \<Rightarrow> zone_set" where
  "zone_set_from_records recs = zone_set_from_single (inferred_origin recs) recs"

definition zone_set_empty :: zone_set where
  "zone_set_empty = \<lparr>zones = []\<rparr>"

definition zone_set_is_empty :: "zone_set \<Rightarrow> bool" where
  "zone_set_is_empty zs \<longleftrightarrow> zones zs = []"

definition zone_set_len :: "zone_set \<Rightarrow> nat" where
  "zone_set_len zs = length (zones zs)"

definition covers :: "auth_zone \<Rightarrow> string \<Rightarrow> bool" where
  "covers z name \<longleftrightarrow> origin z = [] \<or> name = origin z \<or> below name (origin z)"

definition zone_set_find :: "zone_set \<Rightarrow> string \<Rightarrow> auth_zone option" where
  "zone_set_find zs name = List.find (\<lambda>z. covers z name) (zones zs)"

definition record_count :: "zone_set \<Rightarrow> nat" where
  "record_count zs = sum_list (map (\<lambda>z. sum_list (map (length \<circ> snd) (records z))) (zones zs))"


section \<open>Conditional forwarding\<close>

text \<open>The address of an upstream is a \<^verbatim>\<open>SocketAddr\<close>, which the rules only carry.\<close>

record 'addr forward_rule =
  rule_suffix :: string
  upstream :: 'addr

record 'addr forward_rules =
  rules :: "'addr forward_rule list"
  default_upstream :: "'addr option"

definition forward_rules_new :: "'addr option \<Rightarrow> 'addr forward_rule list \<Rightarrow> 'addr forward_rules" where
  "forward_rules_new def rs =
     \<lparr>rules = sort_key (\<lambda>r. - int (length (rule_suffix r))) rs, default_upstream = def\<rparr>"

definition forward_rules_single :: "'addr \<Rightarrow> 'addr forward_rules" where
  "forward_rules_single def = forward_rules_new (Some def) []"

definition forward_rules_none :: "'addr forward_rules" where
  "forward_rules_none = \<lparr>rules = [], default_upstream = None\<rparr>"

definition rule_matches :: "'addr forward_rule \<Rightarrow> string \<Rightarrow> bool" where
  "rule_matches r name \<longleftrightarrow> name = rule_suffix r \<or> below name (rule_suffix r)"

definition match_name :: "'addr forward_rules \<Rightarrow> string \<Rightarrow> 'addr option" where
  "match_name fr name =
     (case List.find (\<lambda>r. rule_matches r name) (rules fr) of
        Some r \<Rightarrow> Some (upstream r)
      | None \<Rightarrow> default_upstream fr)"

definition is_enabled :: "'addr forward_rules \<Rightarrow> bool" where
  "is_enabled fr \<longleftrightarrow> default_upstream fr \<noteq> None \<or> rules fr \<noteq> []"

definition with_default :: "'addr forward_rules \<Rightarrow> 'addr \<Rightarrow> 'addr forward_rules" where
  "with_default fr def = forward_rules_new (Some def) (rules fr)"


section \<open>Longest-suffix tables\<close>

text \<open>
  Both searches are the same contract: a table of suffixes sorted longest first, searched for the
  first entry that accepts a name.  An entry that accepts a name accepts it by a suffix of it, so
  two accepting entries of the same length have the same suffix.
\<close>

locale suffix_table =
  fixes key :: "'a \<Rightarrow> string"
    and accepts :: "'a \<Rightarrow> string \<Rightarrow> bool"
  assumes accepts_suffix: "accepts x name \<Longrightarrow> suffix (key x) name"
begin

lemma first_is_longest:
  assumes "List.find (\<lambda>x. accepts x name) (sort_key (\<lambda>x. - int (length (key x))) xs) = Some x"
  shows "x \<in> set xs" and "accepts x name"
    and "y \<in> set xs \<Longrightarrow> accepts y name \<Longrightarrow> length (key y) \<le> length (key x)"
proof -
  let ?s = "sort_key (\<lambda>x. - int (length (key x))) xs"
  from assms obtain i where i: "i < length ?s" "accepts (?s ! i) name" "?s ! i = x"
    "\<forall>j < i. \<not> accepts (?s ! j) name"
    by (auto simp: find_Some_iff)
  have "?s ! i \<in> set ?s" using i(1) by (rule nth_mem)
  then show "x \<in> set xs" using i(3) by simp
  show "accepts x name" using i by simp
  show "length (key y) \<le> length (key x)" if y: "y \<in> set xs" "accepts y name"
  proof -
    from y(1) have "y \<in> set ?s" by simp
    then obtain j where j: "j < length ?s" "?s ! j = y" by (metis in_set_conv_nth)
    with i(4) y(2) have "i \<le> j" by (metis not_le)
    have "sorted (map (\<lambda>x. - int (length (key x))) ?s)" by simp
    from sorted_nth_mono [OF this \<open>i \<le> j\<close>] j i show ?thesis by simp
  qed
qed

lemma find_None:
  "List.find (\<lambda>x. accepts x name) (sort_key (\<lambda>x. - int (length (key x))) xs) = None \<longleftrightarrow>
     (\<forall>x \<in> set xs. \<not> accepts x name)"
  by (auto simp: find_None_iff)

lemma same_length_same_key:
  "accepts x name \<Longrightarrow> accepts y name \<Longrightarrow> length (key x) = length (key y) \<Longrightarrow> key x = key y"
  by (metis accepts_suffix suffix_length_suffix suffix_order.antisym order_refl)

end

lemma below_suffix: "below s t \<Longrightarrow> suffix t s"
  by (auto simp: below_iff suffix_def)

interpretation zt: suffix_table origin covers
  by unfold_locales (auto simp: covers_def below_suffix)

interpretation ft: suffix_table rule_suffix rule_matches
  by unfold_locales (auto simp: rule_matches_def below_suffix)

lemma zones_new [simp]: "zones (zone_set_new zs) = sort_key (\<lambda>z. - int (length (origin z))) zs"
  by (simp add: zone_set_new_def)

lemma set_zones_new: "set (zones (zone_set_new zs)) = set zs"
  by simp

lemma record_count_new: "record_count (zone_set_new zs) =
    sum_list (map (\<lambda>z. sum_list (map (length \<circ> snd) (records z))) zs)"
proof -
  have "mset (zones (zone_set_new zs)) = mset zs" by (simp only: zones_new mset_sort)
  then show ?thesis
    unfolding record_count_def by (metis mset_map sum_mset_sum_list)
qed

end
