(* ===== verification/Resolver.thy ===== *)
theory Resolver
  imports Zones
begin

text \<open>
  Authoritative resolution, \<^verbatim>\<open>src/dns/resolver.rs\<close>: the exact-then-wildcard \<^verbatim>\<open>lookup\<close>, the loop
  that follows CNAME records and \<^verbatim>\<open>build_response\<close>.  The lemmas say which wildcard a lookup
  takes, relate the loop to an inductive specification of resolution, and characterise every
  field of the response.
\<close>

section \<open>Lookup\<close>

definition MAX_CNAME_CHAIN :: nat where "MAX_CNAME_CHAIN = 16"

text \<open>The loop of \<^verbatim>\<open>lookup\<close> over the parents of a name.\<close>

function lookup_wildcard :: "zone \<Rightarrow> string \<Rightarrow> dns_record list option" where
  "lookup_wildcard recs remainder =
     (case after_dot remainder of
        None \<Rightarrow> None
      | Some r \<Rightarrow> (case map_of recs (''*.'' @ r) of Some rs \<Rightarrow> Some rs | None \<Rightarrow> lookup_wildcard recs r))"
  by pat_completeness auto
termination
  by (relation "measure (\<lambda>(recs, s). length s)") (auto dest: after_dot_length)

declare lookup_wildcard.simps [simp del]

definition lookup :: "zone \<Rightarrow> string \<Rightarrow> dns_record list option" where
  "lookup recs name =
     (case map_of recs name of Some rs \<Rightarrow> Some rs | None \<Rightarrow> lookup_wildcard recs name)"

definition zone_soa :: "zone \<Rightarrow> dns_record option" where
  "zone_soa recs = List.find is_soa (all_records recs)"

text \<open>
  The walk over the parents of a name is shared with the blocklist: probe \<open>*.t\<close> for every parent
  \<open>t\<close>, nearest first.
\<close>

locale wildcard_walk =
  fixes probe :: "string \<Rightarrow> 'v option"
    and walk :: "string \<Rightarrow> 'v option"
  assumes walk_step:
    "walk s = (case after_dot s of None \<Rightarrow> None
       | Some r \<Rightarrow> (case probe (''*.'' @ r) of Some v \<Rightarrow> Some v | None \<Rightarrow> walk r))"
begin

lemma walk_None: "walk s = None \<longleftrightarrow> (\<forall>t. below s t \<longrightarrow> probe (''*.'' @ t) = None)"
proof (induction s rule: measure_induct_rule [of length])
  case (less s)
  show ?case
  proof (cases "after_dot s")
    case None
    then show ?thesis by (simp add: walk_step [of s] below_after_dot [of s])
  next
    case (Some r)
    then show ?thesis
      using less.IH [of r] after_dot_length [OF Some]
      by (auto simp: walk_step [of s] below_after_dot [of s] split: option.splits)
  qed
qed

lemma walk_Some:
  "walk s = Some v \<Longrightarrow>
     \<exists>t. below s t \<and> probe (''*.'' @ t) = Some v \<and>
       (\<forall>u. below s u \<and> length t < length u \<longrightarrow> probe (''*.'' @ u) = None)"
proof (induction s rule: measure_induct_rule [of length])
  case (less s)
  then obtain r where r: "after_dot s = Some r" by (auto simp: walk_step [of s] split: option.splits)
  show ?case
  proof (cases "probe (''*.'' @ r)")
    case (Some w)
    then have "probe (''*.'' @ r) = Some v" using less.prems r by (simp add: walk_step [of s])
    moreover have "length u \<le> length r" if "below s u" for u
      using that r by (auto simp: below_after_dot [of s] dest: below_length)
    ultimately show ?thesis using r by (intro exI [of _ r]) (auto simp: below_after_dot [of s] dest: below_length)
  next
    case None
    then have "walk r = Some v" using less.prems r by (simp add: walk_step [of s])
    from less.IH [OF after_dot_length [OF r] this] obtain t where
      "below r t" "probe (''*.'' @ t) = Some v"
      "\<forall>u. below r u \<and> length t < length u \<longrightarrow> probe (''*.'' @ u) = None" by blast
    with r None show ?thesis by (intro exI [of _ t]) (auto simp: below_after_dot [of s])
  qed
qed

end

interpretation zw: wildcard_walk "map_of recs" "lookup_wildcard recs"
  by unfold_locales (rule lookup_wildcard.simps)


section \<open>Following CNAME records\<close>

text \<open>The local variables of \<^verbatim>\<open>build_response\<close> that its loop changes.\<close>

record chase_state =
  c_name :: string
  c_seen :: "string set"
  c_answers :: "dns_record list"
  c_rcode :: u16
  c_authoritative :: bool
  c_zone :: "auth_zone option"

text \<open>One iteration: the new state, and whether the loop goes on.\<close>

definition chase_step :: "zone_set \<Rightarrow> u16 \<Rightarrow> chase_state \<Rightarrow> chase_state \<times> bool" where
  "chase_step zs qt st =
     (let name = c_name st in
      if name \<in> c_seen st then (st, False)
      else
        let st1 = st\<lparr>c_seen := insert name (c_seen st)\<rparr>;
            missing = (if c_answers st = [] then st1\<lparr>c_rcode := 3\<rparr> else st1)
        in case zone_set_find zs name of
             None \<Rightarrow> (missing, False)
           | Some z \<Rightarrow>
               let zone_known = (case c_zone st of None \<Rightarrow> Some z | Some y \<Rightarrow> Some y) in
               (case lookup (records z) name of
                  None \<Rightarrow> (missing\<lparr>c_zone := zone_known\<rparr>, False)
                | Some rs \<Rightarrow>
                    let st2 = st1\<lparr>c_zone := zone_known, c_authoritative := True\<rparr>;
                        direct = filter (\<lambda>r. record_type r = qt) rs
                    in if direct \<noteq> [] then
                         (st2\<lparr>c_answers := c_answers st @ map (\<lambda>r. with_domain r name) direct\<rparr>, False)
                       else (case List.find (\<lambda>r. record_type r = TYPE_CNAME) rs of
                               None \<Rightarrow> (st2, False)
                             | Some r \<Rightarrow>
                                 let st3 = st2\<lparr>c_answers := c_answers st @ [with_domain r name]\<rparr> in
                                 (case r of
                                    CNAME _ alias _ \<Rightarrow> (st3\<lparr>c_name := to_lowercase alias\<rparr>, True)
                                  | _ \<Rightarrow> (st3, False)))))"

fun chase :: "zone_set \<Rightarrow> u16 \<Rightarrow> nat \<Rightarrow> chase_state \<Rightarrow> chase_state" where
  "chase zs qt 0 st = st"
| "chase zs qt (Suc k) st =
     (case chase_step zs qt st of (st', True) \<Rightarrow> chase zs qt k st' | (st', False) \<Rightarrow> st')"

definition chase_init :: "zone_set \<Rightarrow> dns_packet \<Rightarrow> chase_state" where
  "chase_init zs request =
     (case questions request of
        [] \<Rightarrow> \<lparr>c_name = [], c_seen = {}, c_answers = [], c_rcode = 0, c_authoritative = False, c_zone = None\<rparr>
      | q # _ \<Rightarrow>
          \<lparr>c_name = to_lowercase (qname q), c_seen = {}, c_answers = [], c_rcode = 0,
           c_authoritative = False, c_zone = zone_set_find zs (to_lowercase (qname q))\<rparr>)"

definition chase_all :: "zone_set \<Rightarrow> dns_packet \<Rightarrow> chase_state" where
  "chase_all zs request =
     (case questions request of
        [] \<Rightarrow> chase_init zs request
      | q # _ \<Rightarrow> chase zs (qtype q) MAX_CNAME_CHAIN (chase_init zs request))"

text \<open>The SOA for a negative answer.\<close>

definition negative_soa :: "chase_state \<Rightarrow> dns_record option" where
  "negative_soa st =
     (if c_answers st = [] then
        (case c_zone st of None \<Rightarrow> None | Some z \<Rightarrow> zone_soa (records z))
      else None)"

definition clamp_u16 :: "u16 \<Rightarrow> u16 \<Rightarrow> u16 \<Rightarrow> u16" where
  "clamp_u16 x lo hi = (if x < lo then lo else if hi < x then hi else x)"

definition build_response :: "dns_packet \<Rightarrow> zone_set \<Rightarrow> dns_packet" where
  "build_response request zs =
     (let st = chase_all zs request;
          ans = c_answers st;
          auth = (case negative_soa st of Some soa \<Rightarrow> [soa] | None \<Rightarrow> []);
          authoritative = (c_authoritative st \<or> negative_soa st \<noteq> None);
          fl = 0x8000 OR (h_flags (header request) AND 0x0100) OR c_rcode st;
          fl' = (if authoritative then fl OR 0x0400 else fl);
          adds = (case edns_udp_size request of
                    Some s \<Rightarrow> [OPT (clamp_u16 s (of_nat MAX_UDP_SIZE) (of_nat MAX_EDNS_UDP))]
                  | None \<Rightarrow> [])
      in \<lparr>header = \<lparr>h_id = h_id (header request), h_flags = fl',
                     h_questions = of_nat (length (questions request)),
                     h_answers = of_nat (length ans), h_authorities = of_nat (length auth),
                     h_additionals = of_nat (length adds)\<rparr>,
          questions = questions request, answers = ans, authorities = auth, additionals = adds\<rparr>)"


section \<open>The branches of one iteration\<close>

lemma find_cname:
  "List.find (\<lambda>r. record_type r = TYPE_CNAME) rs = Some r \<Longrightarrow> \<exists>d a t. r = CNAME d a t"
proof -
  assume "List.find (\<lambda>r. record_type r = TYPE_CNAME) rs = Some r"
  then have "record_type r = TYPE_CNAME" by (auto simp: find_Some_iff)
  then show ?thesis by (cases r) (auto simp: type_codes)
qed

text \<open>Why an iteration ends the loop, or which alias it continues with.\<close>

datatype branch = Loop | Unknown | Missing auth_zone | Direct auth_zone "dns_record list" | No_Data auth_zone
  | Alias auth_zone string u32

definition branch_of :: "zone_set \<Rightarrow> u16 \<Rightarrow> string \<Rightarrow> branch" where
  "branch_of zs qt n =
     (case zone_set_find zs n of
        None \<Rightarrow> Unknown
      | Some z \<Rightarrow>
          (case lookup (records z) n of
             None \<Rightarrow> Missing z
           | Some rs \<Rightarrow>
               (if filter (\<lambda>r. record_type r = qt) rs \<noteq> []
                then Direct z (map (\<lambda>r. with_domain r n) (filter (\<lambda>r. record_type r = qt) rs))
                else (case List.find (\<lambda>r. record_type r = TYPE_CNAME) rs of
                        Some (CNAME _ alias t) \<Rightarrow> Alias z alias t
                      | _ \<Rightarrow> No_Data z))))"

definition zone_or :: "chase_state \<Rightarrow> auth_zone \<Rightarrow> auth_zone option" where
  "zone_or st z = (case c_zone st of None \<Rightarrow> Some z | Some y \<Rightarrow> Some y)"

lemma chase_step_seen: "c_name st \<in> c_seen st \<Longrightarrow> chase_step zs qt st = (st, False)"
  by (simp add: chase_step_def)

lemma chase_step_branch:
  assumes "c_name st \<notin> c_seen st"
  defines "n \<equiv> c_name st"
  defines "st1 \<equiv> st\<lparr>c_seen := insert n (c_seen st)\<rparr>"
  defines "missing \<equiv> (if c_answers st = [] then st1\<lparr>c_rcode := 3\<rparr> else st1)"
  shows "chase_step zs qt st = (case branch_of zs qt n of
      Unknown \<Rightarrow> (missing, False)
    | Missing z \<Rightarrow> (missing\<lparr>c_zone := zone_or st z\<rparr>, False)
    | Direct z ans \<Rightarrow> (st1\<lparr>c_zone := zone_or st z, c_authoritative := True, c_answers := c_answers st @ ans\<rparr>, False)
    | No_Data z \<Rightarrow> (st1\<lparr>c_zone := zone_or st z, c_authoritative := True\<rparr>, False)
    | Alias z alias t \<Rightarrow> (st1\<lparr>c_zone := zone_or st z, c_authoritative := True,
        c_answers := c_answers st @ [CNAME n alias t], c_name := to_lowercase alias\<rparr>, True)
    | Loop \<Rightarrow> (st, False))"
  using assms(1)
  by (auto simp: chase_step_def branch_of_def zone_or_def Let_def n_def st1_def missing_def
      dest!: find_cname split: option.splits)

lemma branch_of_not_Loop [simp]: "branch_of zs qt n \<noteq> Loop"
  by (auto simp: branch_of_def split: option.splits dns_record.splits)


section \<open>The specification of resolution\<close>

text \<open>
  \<open>resolves zs qt n ans k\<close>: resolving \<open>n\<close> for type \<open>qt\<close> ends after looking at \<open>k\<close> names, with the
  answers \<open>ans\<close>: one CNAME record per alias followed, then the records of the type asked for under
  the last name, if there are any.
\<close>

inductive resolves :: "zone_set \<Rightarrow> u16 \<Rightarrow> string \<Rightarrow> dns_record list \<Rightarrow> nat \<Rightarrow> bool" for zs qt where
  unknown: "branch_of zs qt n = Unknown \<Longrightarrow> resolves zs qt n [] 1"
| missing: "branch_of zs qt n = Missing z \<Longrightarrow> resolves zs qt n [] 1"
| direct: "branch_of zs qt n = Direct z ans \<Longrightarrow> resolves zs qt n ans 1"
| no_data: "branch_of zs qt n = No_Data z \<Longrightarrow> resolves zs qt n [] 1"
| follow: "branch_of zs qt n = Alias z a t \<Longrightarrow> resolves zs qt (to_lowercase a) ans k \<Longrightarrow>
    resolves zs qt n (CNAME n a t # ans) (Suc k)"

inductive_cases resolvesE: "resolves zs qt n ans k"

lemma resolves_det: "resolves zs qt n ans k \<Longrightarrow> resolves zs qt n ans' k' \<Longrightarrow> ans = ans' \<and> k = k'"
proof (induction arbitrary: ans' k' rule: resolves.induct)
  case (follow n z a t ans k)
  from follow.prems follow.hyps(1) obtain ans0 k0 where
    "ans' = CNAME n a t # ans0" "k' = Suc k0" "resolves zs qt (to_lowercase a) ans0 k0"
    by (auto elim: resolvesE)
  with follow.IH show ?case by blast
qed (auto elim: resolvesE)

text \<open>The loop computes the specification, if it is allowed enough iterations.\<close>

lemma chase_resolves:
  "resolves zs qt n ans k \<Longrightarrow> k \<le> fuel \<Longrightarrow> c_name st = n \<Longrightarrow>
     (\<forall>s \<in> c_seen st. \<exists>ans' k'. resolves zs qt s ans' k' \<and> k < k') \<Longrightarrow>
     c_answers (chase zs qt fuel st) = c_answers st @ ans"
proof (induction arbitrary: fuel st rule: resolves.induct)
  case (follow n z a t ans k)
  have res: "resolves zs qt n (CNAME n a t # ans) (Suc k)" using follow.hyps by (rule resolves.follow)
  have unseen: "n \<notin> c_seen st" using follow.prems(3) resolves_det [OF res] by blast
  obtain f where f: "fuel = Suc f" "k \<le> f" using follow.prems(1) by (cases fuel) auto
  define st' where "st' = st\<lparr>c_seen := insert n (c_seen st), c_zone := zone_or st z, c_authoritative := True,
    c_answers := c_answers st @ [CNAME n a t], c_name := to_lowercase a\<rparr>"
  have step: "chase_step zs qt st = (st', True)"
    using chase_step_branch [of st zs qt] unseen follow.hyps(1) follow.prems(2) by (simp add: st'_def)
  have "\<forall>s \<in> c_seen st'. \<exists>ans' k'. resolves zs qt s ans' k' \<and> k < k'"
    using follow.prems(3) res by (auto simp: st'_def) (meson Suc_lessD)
  from follow.IH [OF f(2) _ this] have "c_answers (chase zs qt f st') = c_answers st' @ ans"
    by (simp add: st'_def)
  then show ?case using step f by (simp add: st'_def)
next
  case (unknown n)
  then have "c_name st \<notin> c_seen st" using resolves_det [OF resolves.unknown] by blast
  with unknown show ?case by (cases fuel) (simp_all add: chase_step_branch)
next
  case (missing n z)
  then have "c_name st \<notin> c_seen st" using resolves_det [OF resolves.missing] by blast
  with missing show ?case by (cases fuel) (simp_all add: chase_step_branch)
next
  case (direct n z ans)
  then have "c_name st \<notin> c_seen st" using resolves_det [OF resolves.direct] by blast
  with direct show ?case by (cases fuel) (simp_all add: chase_step_branch)
next
  case (no_data n z)
  then have "c_name st \<notin> c_seen st" using resolves_det [OF resolves.no_data] by blast
  with no_data show ?case by (cases fuel) (simp_all add: chase_step_branch)
qed


section \<open>The response\<close>

text \<open>Whether the name of the query exists in the zone authoritative for it.\<close>

definition name_exists :: "zone_set \<Rightarrow> string \<Rightarrow> bool" where
  "name_exists zs n =
     (case zone_set_find zs n of None \<Rightarrow> False | Some z \<Rightarrow> lookup (records z) n \<noteq> None)"

lemma branch_exists:
  "branch_of zs qt n = Unknown \<Longrightarrow> \<not> name_exists zs n"
  "branch_of zs qt n = Missing z \<Longrightarrow> \<not> name_exists zs n"
  "branch_of zs qt n = Direct z ans \<Longrightarrow> name_exists zs n"
  "branch_of zs qt n = No_Data z \<Longrightarrow> name_exists zs n"
  "branch_of zs qt n = Alias z a t \<Longrightarrow> name_exists zs n"
  by (auto simp: branch_of_def name_exists_def split: option.splits if_splits dns_record.splits)

lemma branch_Direct_nonempty: "branch_of zs qt n = Direct z ans \<Longrightarrow> ans \<noteq> []"
  by (auto simp: branch_of_def split: option.splits if_splits dns_record.splits)

lemma branch_zone:
  "branch_of zs qt n = Unknown \<Longrightarrow> zone_set_find zs n = None"
  "branch_of zs qt n = Missing z \<Longrightarrow> zone_set_find zs n = Some z"
  "branch_of zs qt n = Direct z ans \<Longrightarrow> zone_set_find zs n = Some z"
  "branch_of zs qt n = No_Data z \<Longrightarrow> zone_set_find zs n = Some z"
  "branch_of zs qt n = Alias z a t \<Longrightarrow> zone_set_find zs n = Some z"
  by (auto simp: branch_of_def split: option.splits if_splits dns_record.splits)

text \<open>Once there are answers, the response code stays; AA and the zone stay once set.\<close>

lemma chase_later:
  "c_answers st \<noteq> [] \<Longrightarrow> c_authoritative st \<Longrightarrow> c_zone st = Some z \<Longrightarrow>
     c_answers (chase zs qt k st) \<noteq> [] \<and> c_rcode (chase zs qt k st) = c_rcode st \<and>
     c_authoritative (chase zs qt k st) \<and> c_zone (chase zs qt k st) = Some z"
proof (induction k arbitrary: st)
  case (Suc k)
  show ?case
  proof (cases "c_name st \<in> c_seen st")
    case True
    with Suc.prems show ?thesis by (simp add: chase_step_seen)
  next
    case False
    with Suc show ?thesis
      by (cases "branch_of zs qt (c_name st)") (simp_all add: chase_step_branch zone_or_def)
  qed
qed simp

lemma chase_first:
  assumes "questions request = q # qs"
  defines "n \<equiv> to_lowercase (qname q)"
  shows "c_rcode (chase_all zs request) = (if name_exists zs n then 0 else 3)"
    and "c_authoritative (chase_all zs request) = name_exists zs n"
    and "c_zone (chase_all zs request) = zone_set_find zs n"
    and "\<not> name_exists zs n \<Longrightarrow> c_answers (chase_all zs request) = []"
proof -
  have unseen: "c_name (chase_init zs request) \<notin> c_seen (chase_init zs request)"
    and init: "c_name (chase_init zs request) = n" "c_answers (chase_init zs request) = []"
      "c_rcode (chase_init zs request) = 0" "\<not> c_authoritative (chase_init zs request)"
      "c_zone (chase_init zs request) = zone_set_find zs n"
    by (simp_all add: chase_init_def assms)
  obtain f where fuel: "MAX_CNAME_CHAIN = Suc f" by (simp add: MAX_CNAME_CHAIN_def)
  note step = chase_step_branch [OF unseen, of zs "qtype q"]
  have all: "chase_all zs request = chase zs (qtype q) (Suc f) (chase_init zs request)"
    by (simp add: chase_all_def assms(1) fuel)
  have "c_rcode (chase_all zs request) = (if name_exists zs n then 0 else 3) \<and>
    c_authoritative (chase_all zs request) = name_exists zs n \<and>
    c_zone (chase_all zs request) = zone_set_find zs n \<and>
    (\<not> name_exists zs n \<longrightarrow> c_answers (chase_all zs request) = [])"
  proof (cases "branch_of zs (qtype q) n")
    case (Alias z a t)
    let ?st = "(chase_init zs request)\<lparr>c_seen := insert n (c_seen (chase_init zs request)),
      c_zone := zone_or (chase_init zs request) z, c_authoritative := True,
      c_answers := c_answers (chase_init zs request) @ [CNAME n a t], c_name := to_lowercase a\<rparr>"
    have "chase_all zs request = chase zs (qtype q) f ?st"
      using step init Alias by (simp add: all)
    moreover have "c_zone ?st = Some z" using branch_zone(5) [OF Alias] init by (simp add: zone_or_def)
    ultimately show ?thesis
      using chase_later [of ?st z zs "qtype q" f] branch_exists(5) [OF Alias] branch_zone(5) [OF Alias] init
      by simp
  next
    case Unknown
    from branch_exists(1) [OF this] branch_zone(1) [OF this] this step init show ?thesis by (simp add: all)
  next
    case (Missing z)
    from branch_exists(2) [OF this] branch_zone(2) [OF this] this step init show ?thesis
      by (simp add: all zone_or_def)
  next
    case (Direct z ans)
    from branch_exists(3) [OF this] branch_zone(3) [OF this] this step init show ?thesis
      by (simp add: all zone_or_def)
  next
    case (No_Data z)
    from branch_exists(4) [OF this] branch_zone(4) [OF this] this step init show ?thesis
      by (simp add: all zone_or_def)
  qed (simp_all add: branch_of_not_Loop)
  then show "c_rcode (chase_all zs request) = (if name_exists zs n then 0 else 3)"
    and "c_authoritative (chase_all zs request) = name_exists zs n"
    and "c_zone (chase_all zs request) = zone_set_find zs n"
    and "\<not> name_exists zs n \<Longrightarrow> c_answers (chase_all zs request) = []"
    by blast+
qed

text \<open>
  The shape of any answer section, also when the loop stops at a repeated name or after its last
  iteration: CNAME records each owned by the alias of the one before, then records of the type
  asked for under the last name.
\<close>

fun answer_chain :: "u16 \<Rightarrow> string \<Rightarrow> dns_record list \<Rightarrow> bool" where
  "answer_chain qt n [] \<longleftrightarrow> True"
| "answer_chain qt n (r # rs) \<longleftrightarrow>
     (\<forall>x \<in> set (r # rs). record_type x = qt \<and> (domain x = n \<or> is_opt x)) \<or>
     (case r of CNAME d a _ \<Rightarrow> d = n \<and> answer_chain qt (to_lowercase a) rs | _ \<Rightarrow> False)"

lemma branch_Direct_chain: "branch_of zs qt n = Direct z ans \<Longrightarrow> answer_chain qt n ans"
proof -
  assume "branch_of zs qt n = Direct z ans"
  then obtain rs where "ans = map (\<lambda>r. with_domain r n) (filter (\<lambda>r. record_type r = qt) rs)"
    by (auto simp: branch_of_def split: option.splits if_splits dns_record.splits)
  then have "\<forall>x \<in> set ans. record_type x = qt \<and> (domain x = n \<or> is_opt x)"
    by (auto simp: is_opt_iff_type)
  then show ?thesis by (cases ans) auto
qed

lemma chase_chain:
  "\<exists>ans. c_answers (chase zs qt k st) = c_answers st @ ans \<and> answer_chain qt (c_name st) ans \<and>
     (qt \<noteq> TYPE_CNAME \<longrightarrow> length (filter (\<lambda>r. record_type r = TYPE_CNAME) ans) \<le> k)"
proof (induction k arbitrary: st)
  case (Suc k)
  show ?case
  proof (cases "c_name st \<in> c_seen st")
    case True
    then show ?thesis by (simp add: chase_step_seen)
  next
    case False
    note step = chase_step_branch [OF False, of zs qt]
    show ?thesis
    proof (cases "branch_of zs qt (c_name st)")
      case (Alias z a t)
      let ?st = "st\<lparr>c_seen := insert (c_name st) (c_seen st), c_zone := zone_or st z, c_authoritative := True,
        c_answers := c_answers st @ [CNAME (c_name st) a t], c_name := to_lowercase a\<rparr>"
      from Suc.IH [of ?st] obtain ans where ans: "c_answers (chase zs qt k ?st) = c_answers ?st @ ans"
        "answer_chain qt (to_lowercase a) ans"
        "qt \<noteq> TYPE_CNAME \<longrightarrow> length (filter (\<lambda>r. record_type r = TYPE_CNAME) ans) \<le> k" by auto
      then show ?thesis
        using step Alias by (intro exI [of _ "CNAME (c_name st) a t # ans"]) simp
    next
      case (Direct z ans)
      then have "length (filter (\<lambda>r. record_type r = TYPE_CNAME) ans) = 0" if "qt \<noteq> TYPE_CNAME"
        using that by (auto simp: branch_of_def filter_empty_conv split: option.splits if_splits dns_record.splits)
      then show ?thesis
        using step Direct branch_Direct_chain [OF Direct] by (intro exI [of _ ans]) auto
    qed (use step in simp_all)
  qed
qed simp

lemma build_response_sections:
  "answers (build_response request zs) = c_answers (chase_all zs request)"
  "authorities (build_response request zs)
     = (case negative_soa (chase_all zs request) of Some soa \<Rightarrow> [soa] | None \<Rightarrow> [])"
  "questions (build_response request zs) = questions request"
  by (simp_all add: build_response_def Let_def)

lemma response_rcode: "rc = 0 \<or> rc = 3 \<Longrightarrow>
   (0x8000 OR (f AND 0x0100) OR rc) AND 0xF = (rc :: u16) \<and>
   (0x8000 OR (f AND 0x0100) OR rc OR 0x0400) AND 0xF = rc"
  by (auto simp: bit.conj_disj_distrib2 and.assoc)

lemma response_bits: "rc = 0 \<or> rc = 3 \<Longrightarrow>
   bit (0x8000 OR (f AND 0x0100) OR rc :: u16) 15 \<and> \<not> bit (0x8000 OR (f AND 0x0100) OR rc :: u16) 7 \<and>
   \<not> bit (0x8000 OR (f AND 0x0100) OR rc :: u16) 10 \<and>
   (bit (0x8000 OR (f AND 0x0100) OR rc :: u16) 8 \<longleftrightarrow> bit f 8)"
  by (auto simp: bit_simps)


section \<open>Properties\<close>

definition sample_zone :: auth_zone where
  "sample_zone = \<lparr>origin = ''e'',
     records = [(''e'', [SOA ''e'' ''ns.e'' ''root.e'' 1 2 3 4 5 60, A ''e'' 7 60]),
                (''w.e'', [CNAME ''w.e'' ''E'' 60]),
                (''*.e'', [A ''*.e'' 9 60])]\<rparr>"

definition sub_zone :: auth_zone where
  "sub_zone = \<lparr>origin = ''s.e'', records = [(''s.e'', [A ''s.e'' 8 60])]\<rparr>"

definition sample_query :: "string \<Rightarrow> u16 \<Rightarrow> dns_packet" where
  "sample_query n ty =
     \<lparr>header = \<lparr>h_id = 7, h_flags = 0x0100, h_questions = 1, h_answers = 0, h_authorities = 0,
        h_additionals = 1\<rparr>,
      questions = [\<lparr>qname = n, qtype = ty, qclass = 1\<rparr>],
      answers = [], authorities = [], additionals = [OPT 4096]\<rparr>"

text \<open>
  The zone answering for a name is one whose origin the name equals or lies below, and no
  other configured zone with that property has a longer origin; there is none exactly when no
  configured zone has that property.
\<close>

theorem zone_set_find_longest:
  "(zone_set_find (zone_set_new zs) n = Some z \<longrightarrow>
      z \<in> set zs \<and> covers z n \<and> (\<forall>y \<in> set zs. covers y n \<longrightarrow> length (origin y) \<le> length (origin z))) \<and>
   (zone_set_find (zone_set_new zs) n = None \<longleftrightarrow> (\<forall>y \<in> set zs. \<not> covers y n))"
  unfolding zone_set_find_def zones_new zt.find_None
  using zt.first_is_longest [of n zs z] by auto

theorem zone_set_find_longest_witness:
  "zone_set_find (zone_set_new [sample_zone, sub_zone]) ''x.s.e'' = Some sub_zone \<and>
   covers sub_zone ''x.s.e'' \<and> covers sample_zone ''x.s.e''"
proof -
  have f: "zone_set_find (zone_set_new [sample_zone, sub_zone]) ''x.s.e'' = Some sub_zone" by code_simp
  have "covers sample_zone ''x.s.e''" by code_simp
  with f zone_set_find_longest [of "[sample_zone, sub_zone]" "''x.s.e''" sub_zone] show ?thesis by simp
qed

text \<open>
  C21: \<^verbatim>\<open>lookup\<close> returns the records stored under the name itself, and otherwise those of the
  nearest enclosing wildcard; it fails only when neither exists.
\<close>

theorem lookup_exact_or_nearest_wildcard:
  "case lookup recs n of
     Some rs \<Rightarrow> map_of recs n = Some rs \<or> map_of recs n = None \<and>
       (\<exists>t. below n t \<and> map_of recs (''*.'' @ t) = Some rs \<and>
          (\<forall>u. below n u \<and> length t < length u \<longrightarrow> map_of recs (''*.'' @ u) = None))
   | None \<Rightarrow> map_of recs n = None \<and> (\<forall>t. below n t \<longrightarrow> map_of recs (''*.'' @ t) = None)"
proof (cases "map_of recs n")
  case None
  show ?thesis
  proof (cases "lookup_wildcard recs n")
    case (Some rs)
    with None zw.walk_Some [OF Some] show ?thesis by (simp add: lookup_def)
  next
    case wild: None
    with None zw.walk_None [of recs n] show ?thesis by (simp add: lookup_def)
  qed
qed (simp add: lookup_def)

theorem lookup_exact_or_nearest_wildcard_witness:
  "lookup (records sample_zone) ''a.b.e'' = Some [A ''*.e'' 9 60] \<and>
   (\<exists>t. below ''a.b.e'' t \<and> map_of (records sample_zone) (''*.'' @ t) = Some [A ''*.e'' 9 60])"
proof -
  have l: "lookup (records sample_zone) ''a.b.e'' = Some [A ''*.e'' 9 60]"
    and m: "map_of (records sample_zone) ''a.b.e'' = None" by code_simp+
  from lookup_exact_or_nearest_wildcard [of "records sample_zone" "''a.b.e''"] l m show ?thesis by auto
qed

text \<open>
  A wildcard also answers below a name that exists: the records of \<open>*.e\<close> are returned for
  \<open>x.w.e\<close> although \<open>w.e\<close> is a name of the zone, where RFC 4592 (closest encloser) has no match.
\<close>

theorem wildcard_ignores_closest_encloser:
  "map_of (records sample_zone) ''w.e'' \<noteq> None \<and> below ''x.w.e'' ''w.e'' \<and>
   lookup (records sample_zone) ''x.w.e'' = map_of (records sample_zone) ''*.e''"
  by code_simp

text \<open>
  C2: following aliases computes resolution: whenever resolving the (lowercased) name of the
  question ends after at most 16 names, the answer section is exactly its result.
\<close>

theorem build_response_resolves:
  assumes "questions request = q # qs"
    and "resolves zs (qtype q) (to_lowercase (qname q)) ans k" and "k \<le> 16"
  shows "answers (build_response request zs) = ans"
proof -
  have "c_answers (chase zs (qtype q) MAX_CNAME_CHAIN (chase_init zs request))
      = c_answers (chase_init zs request) @ ans"
    by (rule chase_resolves [OF assms(2)]) (use assms in \<open>simp_all add: MAX_CNAME_CHAIN_def chase_init_def\<close>)
  then show ?thesis
    by (simp add: build_response_sections chase_all_def assms(1)) (simp add: chase_init_def assms(1))
qed

theorem build_response_resolves_witness:
  "answers (build_response (sample_query ''W.e'' TYPE_A) (zone_set_new [sample_zone]))
     = [CNAME ''w.e'' ''E'' 60, A ''e'' 7 60]"
proof -
  let ?zs = "zone_set_new [sample_zone]"
  have low: "to_lowercase ''W.e'' = ''w.e''" "to_lowercase ''E'' = ''e''" by code_simp+
  have "branch_of ?zs TYPE_A ''e'' = Direct sample_zone [A ''e'' 7 60]" by code_simp
  then have "resolves ?zs TYPE_A (to_lowercase ''E'') [A ''e'' 7 60] 1" unfolding low by (rule resolves.direct)
  moreover have "branch_of ?zs TYPE_A ''w.e'' = Alias sample_zone ''E'' 60" by code_simp
  ultimately have "resolves ?zs TYPE_A (to_lowercase ''W.e'') [CNAME ''w.e'' ''E'' 60, A ''e'' 7 60] (Suc 1)"
    unfolding low(1) by (intro resolves.follow)
  then show ?thesis
    by (intro build_response_resolves [where k = 2 and qs = "[]" and q = "\<lparr>qname = ''W.e'', qtype = TYPE_A, qclass = 1\<rparr>"])
       (simp_all add: sample_query_def numeral_2_eq_2)
qed

text \<open>
  C6: the response code and the AA bit: NXDOMAIN exactly when the name of the question does not
  exist in the zone found for it, and then there are no answers; a name that exists gives
  NOERROR with AA; a negative answer carries the SOA of the zone of the name, and then AA as well.
\<close>

theorem build_response_negative:
  fixes zs :: zone_set
  assumes "questions request = q # qs"
  defines "n \<equiv> to_lowercase (qname q)" and "p \<equiv> build_response request zs"
  shows "h_flags (header p) AND 0xF = (if name_exists zs n then 0 else 3) \<and>
    (name_exists zs n \<or> answers p = []) \<and>
    authorities p = (case zone_set_find zs n of
        Some z \<Rightarrow> (if answers p = [] then (case zone_soa (records z) of Some soa \<Rightarrow> [soa] | None \<Rightarrow> []) else [])
      | None \<Rightarrow> []) \<and>
    (bit (h_flags (header p)) 10 \<longleftrightarrow> name_exists zs n \<or> authorities p \<noteq> [])"
proof -
  note first = chase_first [OF assms(1), of zs, folded n_def]
  have soa: "negative_soa (chase_all zs request) = (if answers p = [] then
      (case zone_set_find zs n of None \<Rightarrow> None | Some z \<Rightarrow> zone_soa (records z)) else None)"
    by (simp add: negative_soa_def first p_def build_response_sections)
  have rc: "c_rcode (chase_all zs request) = 0 \<or> c_rcode (chase_all zs request) = 3" by (simp add: first)
  have flags: "h_flags (header p) = (let fl = 0x8000 OR (h_flags (header request) AND 0x0100) OR c_rcode (chase_all zs request)
      in if name_exists zs n \<or> negative_soa (chase_all zs request) \<noteq> None then fl OR 0x0400 else fl)"
    by (simp add: p_def build_response_def Let_def first)
  have auth: "authorities p = (case negative_soa (chase_all zs request) of Some soa \<Rightarrow> [soa] | None \<Rightarrow> [])"
    by (simp add: p_def build_response_sections)
  have "h_flags (header p) AND 0xF = c_rcode (chase_all zs request)"
    using response_rcode [OF rc, of "h_flags (header request)"] by (simp add: flags Let_def or.assoc)
  moreover have "bit (h_flags (header p)) 10 \<longleftrightarrow> name_exists zs n \<or> authorities p \<noteq> []"
    using response_bits [OF rc, of "h_flags (header request)"]
    by (auto simp: flags auth Let_def bit_simps split: option.splits)
  moreover have "name_exists zs n \<or> answers p = []"
    using first(4) by (auto simp: p_def build_response_sections)
  moreover have "authorities p = (case zone_set_find zs n of
        Some z \<Rightarrow> (if answers p = [] then (case zone_soa (records z) of Some soa \<Rightarrow> [soa] | None \<Rightarrow> []) else [])
      | None \<Rightarrow> [])"
    by (simp add: auth soa split: option.splits)
  ultimately show ?thesis using first(1) by simp
qed

theorem build_response_negative_witness:
  "h_flags (header (build_response (sample_query ''f'' TYPE_A) (zone_set_new [sample_zone]))) AND 0xF = 3"
proof -
  have "\<not> name_exists (zone_set_new [sample_zone]) (to_lowercase ''f'')" by code_simp
  then show ?thesis
    using build_response_negative [of "sample_query ''f'' TYPE_A" "\<lparr>qname = ''f'', qtype = TYPE_A, qclass = 1\<rparr>" "[]"
        "zone_set_new [sample_zone]"]
    by (simp add: sample_query_def)
qed

text \<open>
  C22: every answer section is a chain of CNAME records, each owned by the lowercased alias of
  the one before, followed by records of the type asked for under the last name; at most 16 CNAME
  records are followed, also when the zone's aliases form a loop.
\<close>

theorem build_response_chain:
  assumes "questions request = q # qs"
  shows "answer_chain (qtype q) (to_lowercase (qname q)) (answers (build_response request zs)) \<and>
    (qtype q = TYPE_CNAME \<or>
     length (filter (\<lambda>r. record_type r = TYPE_CNAME) (answers (build_response request zs))) \<le> 16)"
proof -
  from chase_chain [of zs "qtype q" MAX_CNAME_CHAIN "chase_init zs request"] assms show ?thesis
    by (auto simp: build_response_sections chase_all_def chase_init_def MAX_CNAME_CHAIN_def)
qed

definition loop_zone :: auth_zone where
  "loop_zone = \<lparr>origin = ''l'', records = [(''a.l'', [CNAME ''a.l'' ''b.l'' 1]), (''b.l'', [CNAME ''b.l'' ''a.l'' 1])]\<rparr>"

theorem build_response_chain_witness:
  "answers (build_response (sample_query ''a.l'' TYPE_A) (zone_set_new [loop_zone]))
     = [CNAME ''a.l'' ''b.l'' 1, CNAME ''b.l'' ''a.l'' 1] \<and>
   answer_chain TYPE_A (to_lowercase ''a.l'')
     (answers (build_response (sample_query ''a.l'' TYPE_A) (zone_set_new [loop_zone])))"
proof
  show "answers (build_response (sample_query ''a.l'' TYPE_A) (zone_set_new [loop_zone]))
     = [CNAME ''a.l'' ''b.l'' 1, CNAME ''b.l'' ''a.l'' 1]" by code_simp
  show "answer_chain TYPE_A (to_lowercase ''a.l'')
     (answers (build_response (sample_query ''a.l'' TYPE_A) (zone_set_new [loop_zone])))"
    using build_response_chain [of "sample_query ''a.l'' TYPE_A" "\<lparr>qname = ''a.l'', qtype = TYPE_A, qclass = 1\<rparr>" "[]"
        "zone_set_new [loop_zone]"] by (simp add: sample_query_def)
qed

text \<open>
  The response repeats the identifier, the questions and the RD bit of the query, sets QR,
  never sets RA, truncation or an opcode, has counts equal to the lengths of its sections, and
  answers an EDNS query with one OPT record whose size is the client's, limited to 512..1232.
\<close>

theorem build_response_header:
  "let p = build_response request zs; f = h_flags (header p) in
   h_id (header p) = h_id (header request) \<and> questions p = questions request \<and>
   bit f 15 \<and> (bit f 8 \<longleftrightarrow> bit (h_flags (header request)) 8) \<and>
   f AND 0x7AF0 = 0 \<and>
   h_questions (header p) = of_nat (length (questions p)) \<and> h_answers (header p) = of_nat (length (answers p)) \<and>
   h_authorities (header p) = of_nat (length (authorities p)) \<and>
   additionals p = (case edns_udp_size request of
       Some s \<Rightarrow> [OPT (if s < 512 then 512 else if 1232 < s then 1232 else s)] | None \<Rightarrow> [])"
proof -
  have rc: "c_rcode (chase_all zs request) = 0 \<or> c_rcode (chase_all zs request) = 3"
  proof (cases "questions request")
    case Nil
    then show ?thesis by (simp add: chase_all_def chase_init_def)
  next
    case (Cons q qs)
    then show ?thesis by (simp add: chase_first)
  qed
  let ?f = "h_flags (header request)"
  have zero: "(0x8000 OR (?f AND 0x0100) OR r) AND 0x7AF0 = 0 \<and>
      (0x8000 OR (?f AND 0x0100) OR r OR 0x0400) AND 0x7AF0 = (0 :: u16)"
    if "r = 0 \<or> r = 3" for r
    using that by (auto simp: bit.conj_disj_distrib2 and.assoc)
  show ?thesis
    using zero [OF rc] response_bits [OF rc, of ?f]
    by (auto simp: build_response_def Let_def clamp_u16_def MAX_UDP_SIZE_def MAX_EDNS_UDP_def bit_simps
        or.assoc split: option.splits)
qed

end
