(* ===== verification/Std_Parse.thy ===== *)
theory Std_Parse
  imports Dns_Record
begin

text \<open>
  The parts of Rust's standard library that the configuration code uses on text: white space and
  lines (\<^verbatim>\<open>trim\<close>, \<^verbatim>\<open>split_whitespace\<close>, \<^verbatim>\<open>lines\<close>), unsigned integers (\<^verbatim>\<open>FromStr\<close> of \<^verbatim>\<open>u8\<close>,
  \<^verbatim>\<open>u16\<close>, \<^verbatim>\<open>u32\<close>), and network addresses (\<^verbatim>\<open>FromStr\<close> of \<^verbatim>\<open>Ipv4Addr\<close>, \<^verbatim>\<open>Ipv6Addr\<close> and
  \<^verbatim>\<open>SocketAddr\<close>, after \<^verbatim>\<open>core::net::parser\<close>).
\<close>

section \<open>Characters and white space\<close>

text \<open>The characters of a UTF-8 string, each as its bytes.\<close>

definition char_width :: "char \<Rightarrow> nat" where
  "char_width c =
     (let b = (of_char c :: nat) in
      if b < 0x80 then 1 else if b < 0xE0 then 2 else if b < 0xF0 then 3 else 4)"

lemma char_width_pos [simp]: "0 < char_width c"
  by (simp add: char_width_def Let_def)

function chars :: "string \<Rightarrow> string list" where
  "chars s =
     (case s of [] \<Rightarrow> [] | c # _ \<Rightarrow> take (char_width c) s # chars (drop (char_width c) s))"
  by pat_completeness auto
termination
  by (relation "measure length") auto

declare chars.simps [simp del]

lemma concat_chars [simp]: "concat (chars s) = s"
proof (induction s rule: chars.induct)
  case (1 s)
  then show ?case by (cases s) (simp_all add: chars.simps [of "[]"] chars.simps [of "_ # _"])
qed

text \<open>\<^verbatim>\<open>char::is_whitespace\<close>: the Unicode property White\_Space.\<close>

definition is_whitespace_cp :: "nat \<Rightarrow> bool" where
  "is_whitespace_cp c \<longleftrightarrow>
     9 \<le> c \<and> c \<le> 13 \<or> c = 32 \<or> c = 0x85 \<or> c = 0xA0 \<or> c = 0x1680 \<or> 0x2000 \<le> c \<and> c \<le> 0x200A \<or>
     c = 0x2028 \<or> c = 0x2029 \<or> c = 0x202F \<or> c = 0x205F \<or> c = 0x3000"

definition is_whitespace :: "string \<Rightarrow> bool" where
  "is_whitespace ch = (case decode_utf8 (map of_char ch) of [c] \<Rightarrow> is_whitespace_cp c | _ \<Rightarrow> False)"

text \<open>\<^verbatim>\<open>str::trim\<close>, and \<^verbatim>\<open>str::trim_matches\<close> of one character.\<close>

definition trim_chars :: "(string \<Rightarrow> bool) \<Rightarrow> string \<Rightarrow> string" where
  "trim_chars P s = concat (rev (dropWhile P (rev (dropWhile P (chars s)))))"

definition trim :: "string \<Rightarrow> string" where
  "trim s = trim_chars is_whitespace s"

definition trim_matches :: "char \<Rightarrow> string \<Rightarrow> string" where
  "trim_matches c s = trim_chars (\<lambda>ch. ch = [c]) s"

text \<open>\<^verbatim>\<open>str::split_whitespace\<close>: the non-empty pieces between white space.\<close>

fun pieces :: "string list \<Rightarrow> string \<Rightarrow> string list" where
  "pieces [] acc = (if acc = [] then [] else [acc])"
| "pieces (ch # cs) acc =
     (if is_whitespace ch then (if acc = [] then pieces cs [] else acc # pieces cs [])
      else pieces cs (acc @ ch))"

definition split_whitespace :: "string \<Rightarrow> string list" where
  "split_whitespace s = pieces (chars s) []"

lemma pieces_nonempty: "p \<in> set (pieces cs acc) \<Longrightarrow> p \<noteq> []"
  by (induction cs acc rule: pieces.induct) (auto split: if_splits)

lemma split_whitespace_nonempty: "p \<in> set (split_whitespace s) \<Longrightarrow> p \<noteq> []"
  by (auto simp: split_whitespace_def dest: pieces_nonempty)

text \<open>\<^verbatim>\<open>str::lines\<close>: a line ends at a newline, which is not part of it, nor a carriage return before it.\<close>

definition strip_cr :: "string \<Rightarrow> string" where
  "strip_cr l = (if l \<noteq> [] \<and> last l = CHR 0x0D then butlast l else l)"

fun lines_of :: "string list \<Rightarrow> string list" where
  "lines_of [] = []"
| "lines_of [l] = (if l = [] then [] else [l])"
| "lines_of (l # ls) = strip_cr l # lines_of ls"

definition lines :: "string \<Rightarrow> string list" where
  "lines s = lines_of (split_on CHR 0x0A s)"

text \<open>\<^verbatim>\<open>str::split_once\<close> of one character.\<close>

fun split_once :: "char \<Rightarrow> string \<Rightarrow> (string \<times> string) option" where
  "split_once c [] = None"
| "split_once c (x # xs) =
     (if x = c then Some ([], xs)
      else map_option (\<lambda>(a, b). (x # a, b)) (split_once c xs))"

lemma split_once_Some: "split_once c s = Some (a, b) \<longleftrightarrow> s = a @ c # b \<and> c \<notin> set a"
proof (induction s arbitrary: a)
  case (Cons x s)
  show ?case
  proof (cases a)
    case Nil
    show ?thesis using Nil by (cases "x = c") auto
  next
    case (Cons y ys)
    then show ?thesis using Cons.IH [of ys] by (cases "x = c") auto
  qed
qed simp


section \<open>Unsigned integers\<close>

definition digit_of :: "nat \<Rightarrow> char \<Rightarrow> nat option" where
  "digit_of radix c =
     (let b = (of_char c :: nat);
          d = (if 48 \<le> b \<and> b \<le> 57 then Some (b - 48)
               else if 97 \<le> b \<and> b \<le> 122 then Some (b - 87)
               else if 65 \<le> b \<and> b \<le> 90 then Some (b - 55)
               else None)
      in case d of Some v \<Rightarrow> (if v < radix then Some v else None) | None \<Rightarrow> None)"

definition digits_value :: "nat \<Rightarrow> nat list \<Rightarrow> nat" where
  "digits_value radix ds = foldl (\<lambda>acc d. acc * radix + d) 0 ds"

text \<open>
  \<^verbatim>\<open>FromStr\<close> of an unsigned type whose greatest value is \<open>hi\<close>: an optional plus sign, then at least
  one digit and only digits; too large a value is an error.
\<close>

definition parse_uint :: "nat \<Rightarrow> string \<Rightarrow> nat option" where
  "parse_uint hi s =
     (let body = (case s of CHR ''+'' # rest \<Rightarrow> rest | _ \<Rightarrow> s);
          ds = map (digit_of 10) body
      in if body = [] \<or> None \<in> set ds then None
         else let v = digits_value 10 (map the ds) in if v \<le> hi then Some v else None)"

definition parse_u8 :: "string \<Rightarrow> u8 option" where
  "parse_u8 s = map_option of_nat (parse_uint 255 s)"

definition parse_u16 :: "string \<Rightarrow> u16 option" where
  "parse_u16 s = map_option of_nat (parse_uint 65535 s)"

definition parse_u32 :: "string \<Rightarrow> u32 option" where
  "parse_u32 s = map_option of_nat (parse_uint 4294967295 s)"

lemma parse_uint_le: "parse_uint hi s = Some v \<Longrightarrow> v \<le> hi"
  by (auto simp: parse_uint_def Let_def split: if_splits)


section \<open>Addresses\<close>

text \<open>A reader takes a value off the front of the text, or fails without consuming.\<close>

type_synonym 'a reader = "string \<Rightarrow> ('a \<times> string) option"

fun read_digits :: "nat \<Rightarrow> string \<Rightarrow> nat list \<times> string" where
  "read_digits radix [] = ([], [])"
| "read_digits radix (c # cs) =
     (case digit_of radix c of
        Some d \<Rightarrow> (let (ds, rest) = read_digits radix cs in (d # ds, rest))
      | None \<Rightarrow> ([], c # cs))"

text \<open>\<^verbatim>\<open>read_number\<close>: radix, greatest number of digits (if limited), leading zeros, greatest value.\<close>

definition read_number :: "nat \<Rightarrow> nat option \<Rightarrow> bool \<Rightarrow> nat \<Rightarrow> nat reader" where
  "read_number radix max_digits allow_zero hi s =
     (let (ds, rest) = read_digits radix s in
      if ds = [] \<or> (case max_digits of Some m \<Rightarrow> m < length ds | None \<Rightarrow> False) \<or>
         (\<not> allow_zero \<and> hd s = CHR ''0'' \<and> 1 < length ds) \<or> hi < digits_value radix ds
      then None else Some (digits_value radix ds, rest))"

fun read_given_char :: "char \<Rightarrow> unit reader" where
  "read_given_char c [] = None"
| "read_given_char c (x # xs) = (if x = c then Some ((), xs) else None)"

definition read_separator :: "char \<Rightarrow> nat \<Rightarrow> 'a reader \<Rightarrow> 'a reader" where
  "read_separator sep index inner s =
     (if 0 < index then (case read_given_char sep s of Some (_, r) \<Rightarrow> inner r | None \<Rightarrow> None)
      else inner s)"

text \<open>\<^verbatim>\<open>read_ipv4_addr\<close>\<close>

fun read_octets :: "nat \<Rightarrow> nat \<Rightarrow> nat list reader" where
  "read_octets 0 i s = Some ([], s)"
| "read_octets (Suc n) i s =
     (case read_separator CHR ''.'' i (read_number 10 (Some 3) False 255) s of
        None \<Rightarrow> None
      | Some (v, r) \<Rightarrow> (case read_octets n (Suc i) r of None \<Rightarrow> None | Some (vs, r') \<Rightarrow> Some (v # vs, r')))"

definition read_ipv4_addr :: "ipv4 reader" where
  "read_ipv4_addr s =
     (case read_octets 4 0 s of Some (vs, r) \<Rightarrow> Some (be_word (map of_nat vs), r) | None \<Rightarrow> None)"

text \<open>\<^verbatim>\<open>read_groups\<close> of \<^verbatim>\<open>read_ipv6_addr\<close>, with \<open>n\<close> groups still to read.\<close>

fun read_groups :: "nat \<Rightarrow> nat \<Rightarrow> string \<Rightarrow> u16 list \<times> bool \<times> string" where
  "read_groups 0 i s = ([], False, s)"
| "read_groups (Suc n) i s =
     (case (if 0 < n then read_separator CHR '':'' i read_ipv4_addr s else None) of
        Some (a, r) \<Rightarrow> ([ucast (drop_bit 16 a), ucast a], True, r)
      | None \<Rightarrow>
          (case read_separator CHR '':'' i (read_number 16 (Some 4) True 65535) s of
             Some (g, r) \<Rightarrow> (let (gs, v4, r') = read_groups n (Suc i) r in (of_nat g # gs, v4, r'))
           | None \<Rightarrow> ([], False, s)))"

definition groups_addr :: "u16 list \<Rightarrow> ipv6" where
  "groups_addr gs = be_word (concat (map (be_bytes 2) gs))"

definition read_ipv6_addr :: "ipv6 reader" where
  "read_ipv6_addr s =
     (let (head, head_v4, r) = read_groups 8 0 s in
      if length head = 8 then Some (groups_addr head, r)
      else if head_v4 then None
      else (case r of
              CHR '':'' # CHR '':'' # r' \<Rightarrow>
                (let (tail, _, r'') = read_groups (8 - (length head + 1)) 0 r' in
                 Some (groups_addr (head @ replicate (8 - length head - length tail) 0 @ tail), r''))
            | _ \<Rightarrow> None))"

text \<open>\<^verbatim>\<open>parse_with\<close>: the whole text must be read.\<close>

definition parse_with :: "'a reader \<Rightarrow> string \<Rightarrow> 'a option" where
  "parse_with rd s = (case rd s of Some (v, []) \<Rightarrow> Some v | _ \<Rightarrow> None)"

definition parse_ipv4 :: "string \<Rightarrow> ipv4 option" where
  "parse_ipv4 s = (if 15 < length s then None else parse_with read_ipv4_addr s)"

definition parse_ipv6 :: "string \<Rightarrow> ipv6 option" where
  "parse_ipv6 s = parse_with read_ipv6_addr s"

datatype ip_addr = V4 ipv4 | V6 ipv6

datatype socket_addr = SocketV4 ipv4 u16 | SocketV6 ipv6 u16 u32

definition read_port :: "u16 reader" where
  "read_port s =
     (case read_given_char CHR '':'' s of
        Some (_, r) \<Rightarrow> map_option (\<lambda>(n, r'). (of_nat n, r')) (read_number 10 None True 65535 r)
      | None \<Rightarrow> None)"

definition read_scope_id :: "u32 reader" where
  "read_scope_id s =
     (case read_given_char CHR ''%'' s of
        Some (_, r) \<Rightarrow> map_option (\<lambda>(n, r'). (of_nat n, r')) (read_number 10 None True 4294967295 r)
      | None \<Rightarrow> None)"

definition read_socket_addr_v4 :: "socket_addr reader" where
  "read_socket_addr_v4 s =
     (case read_ipv4_addr s of
        Some (a, r) \<Rightarrow> map_option (\<lambda>(p, r'). (SocketV4 a p, r')) (read_port r)
      | None \<Rightarrow> None)"

definition read_socket_addr_v6 :: "socket_addr reader" where
  "read_socket_addr_v6 s =
     (case read_given_char CHR ''['' s of
        None \<Rightarrow> None
      | Some (_, r1) \<Rightarrow>
          (case read_ipv6_addr r1 of
             None \<Rightarrow> None
           | Some (a, r2) \<Rightarrow>
               (let (scope, r3) = (case read_scope_id r2 of Some (z, r) \<Rightarrow> (z, r) | None \<Rightarrow> (0, r2)) in
                case read_given_char CHR '']'' r3 of
                  None \<Rightarrow> None
                | Some (_, r4) \<Rightarrow> map_option (\<lambda>(p, r'). (SocketV6 a p scope, r')) (read_port r4))))"

definition parse_socket_addr :: "string \<Rightarrow> socket_addr option" where
  "parse_socket_addr s =
     (case parse_with read_socket_addr_v4 s of
        Some a \<Rightarrow> Some a
      | None \<Rightarrow> parse_with read_socket_addr_v6 s)"

end
