(* ===== verification/Zone_File.thy ===== *)
theory Zone_File
  imports Std_Parse Zones
begin

text \<open>
  Loading of configuration data, \<^verbatim>\<open>src/config.rs\<close>: zone files line by line, the zones and the
  forwarding rules of the settings.  Reading a file is the parameter \<open>read_file\<close>.  The settings
  themselves come from a TOML parser outside the repository; the records below are the fields of
  \<^verbatim>\<open>Settings\<close> that these functions read.
\<close>

section \<open>Lines of a zone file\<close>

text \<open>The messages of \<^verbatim>\<open>bail!\<close> and \<^verbatim>\<open>context\<close>, which only reach the log.\<close>

datatype config_error =
    TooFewFields
  | InvalidTtl string
  | InvalidAddress
  | InvalidNumber
  | RecordFields u16
  | Unreadable string
  | InvalidUpstream string
  | InvalidConfig string

definition strip_trailing_dot :: "string \<Rightarrow> string" where
  "strip_trailing_dot name = (if name \<noteq> [] \<and> last name = CHR ''.'' then butlast name else name)"

text \<open>\<^verbatim>\<open>.parse().context(..)?\<close>\<close>

definition or_err :: "config_error \<Rightarrow> 'a option \<Rightarrow> (config_error, 'a) outcome" where
  "or_err e v = (case v of Some x \<Rightarrow> Ok x | None \<Rightarrow> Err e)"

text \<open>The match on the record type, with \<open>parts\<close> the fields of the line.\<close>

definition parse_data ::
    "string list \<Rightarrow> string \<Rightarrow> u32 \<Rightarrow> string \<Rightarrow> string \<Rightarrow> (config_error, dns_record option) outcome" where
  "parse_data parts dm t rtype data =
     (if rtype = ''A'' then
        obind (or_err InvalidAddress (parse_ipv4 data)) (\<lambda>a. Ok (Some (A dm a t)))
      else if rtype = ''AAAA'' then
        obind (or_err InvalidAddress (parse_ipv6 data)) (\<lambda>a. Ok (Some (AAAA dm a t)))
      else if rtype = ''CNAME'' then Ok (Some (CNAME dm (strip_trailing_dot data) t))
      else if rtype = ''NS'' then Ok (Some (NS dm (strip_trailing_dot data) t))
      else if rtype = ''MX'' then
        (if length parts < 5 then Err (RecordFields TYPE_MX)
         else obind (or_err InvalidNumber (parse_u16 (parts ! 3))) (\<lambda>preference.
           Ok (Some (MX dm preference (strip_trailing_dot (parts ! 4)) t))))
      else if rtype = ''TXT'' then Ok (Some (TXT dm (trim_matches CHR 0x22 data) t))
      else if rtype = ''PTR'' then Ok (Some (PTR dm (strip_trailing_dot data) t))
      else if rtype = ''SRV'' then
        (if length parts < 7 then Err (RecordFields TYPE_SRV)
         else
           obind (or_err InvalidNumber (parse_u16 (parts ! 3))) (\<lambda>priority.
           obind (or_err InvalidNumber (parse_u16 (parts ! 4))) (\<lambda>weight.
           obind (or_err InvalidNumber (parse_u16 (parts ! 5))) (\<lambda>port.
             Ok (Some (SRV dm priority weight port (strip_trailing_dot (parts ! 6)) t))))))
      else if rtype = ''CAA'' then
        (if length parts < 6 then Err (RecordFields TYPE_CAA)
         else obind (or_err InvalidNumber (parse_u8 (parts ! 3))) (\<lambda>flags.
           Ok (Some (CAA dm flags (parts ! 4) (trim_matches CHR 0x22 (join '' '' (drop 5 parts))) t))))
      else if rtype = ''SOA'' then
        (if length parts < 10 then Err (RecordFields TYPE_SOA)
         else
           obind (or_err InvalidNumber (parse_u32 (parts ! 5))) (\<lambda>serial.
           obind (or_err InvalidNumber (parse_u32 (parts ! 6))) (\<lambda>refresh.
           obind (or_err InvalidNumber (parse_u32 (parts ! 7))) (\<lambda>retry.
           obind (or_err InvalidNumber (parse_u32 (parts ! 8))) (\<lambda>expire.
           obind (or_err InvalidNumber (parse_u32 (parts ! 9))) (\<lambda>minimum.
             Ok (Some (SOA dm (strip_trailing_dot (parts ! 3)) (strip_trailing_dot (parts ! 4))
                        serial refresh retry expire minimum t))))))))
      else Ok None)"

definition parse_line :: "string \<Rightarrow> (config_error, (string \<times> dns_record) option) outcome" where
  "parse_line line =
     (let parts = split_whitespace line in
      if length parts < 4 then Err TooFewFields
      else
        let dm = strip_trailing_dot (to_lowercase (parts ! 0)) in
        obind (or_err (InvalidTtl (parts ! 1)) (parse_u32 (parts ! 1))) (\<lambda>t.
        obind (parse_data parts dm t (parts ! 2) (join '' '' (drop 3 parts))) (\<lambda>r.
          Ok (map_option (\<lambda>x. (dm, x)) r))))"

text \<open>\<^verbatim>\<open>zone.entry(domain).or_default().push(record)\<close>\<close>

fun zone_push :: "string \<Rightarrow> dns_record \<Rightarrow> zone \<Rightarrow> zone" where
  "zone_push dm r [] = [(dm, [r])]"
| "zone_push dm r ((k, rs) # z) = (if k = dm then (k, rs @ [r]) # z else (k, rs) # zone_push dm r z)"

definition load_line :: "string \<Rightarrow> zone \<Rightarrow> zone" where
  "load_line raw z =
     (let line = trim raw in
      if line = [] \<or> hd line = CHR '';'' then z
      else (case parse_line line of Ok (Some (dm, r)) \<Rightarrow> zone_push dm r z | _ \<Rightarrow> z))"

definition load_zone :: "string \<Rightarrow> zone" where
  "load_zone content = fold load_line (lines content) []"

type_synonym reader_of_files = "string \<Rightarrow> string option"

definition load_zone_file :: "reader_of_files \<Rightarrow> string \<Rightarrow> (config_error, zone) outcome" where
  "load_zone_file read_file p =
     (case read_file p of Some content \<Rightarrow> Ok (load_zone content) | None \<Rightarrow> Err (Unreadable p))"

definition load_zone_with_inferred_origin :: "reader_of_files \<Rightarrow> string \<Rightarrow> (config_error, auth_zone) outcome" where
  "load_zone_with_inferred_origin read_file p =
     obind (load_zone_file read_file p) (\<lambda>recs. Ok \<lparr>origin = inferred_origin recs, records = recs\<rparr>)"


section \<open>Settings\<close>

record zone_settings =
  zs_origin :: string
  zs_file :: string

record forward_rule_settings =
  fr_suffix :: string
  fr_upstream :: string

record upstream_settings =
  us_default :: "string option"
  us_timeout_secs :: "64 word option"
  us_rules :: "forward_rule_settings list option"
  us_recursive :: bool

record server_settings =
  ss_addr :: "string option"
  ss_no_recurse :: "bool option"
  ss_rate_limit :: "u32 option"
  ss_cache_size :: "nat option"

record tls_settings =
  ts_dot_addr :: "string option"
  ts_doh_addr :: "string option"
  ts_doq_addr :: "string option"
  ts_cert :: "string option"
  ts_key :: "string option"

text \<open>
  The sections with a single field are that field: the metrics address, the blocklist file, the
  DNS64 prefix, the list of transfer clients, and whether DNSSEC is enabled.
\<close>

record settings =
  st_server :: "server_settings option"
  st_upstream :: "upstream_settings option"
  st_zone :: "zone_settings list option"
  st_tls :: "tls_settings option"
  st_metrics :: "string option option"
  st_blocklist :: "string option"
  st_dns64 :: "string option option"
  st_axfr :: "string list option"
  st_dnssec :: "bool option"

text \<open>\<^verbatim>\<open>toml::from_str\<close> is the parameter \<open>toml\<close>.\<close>

definition load_settings ::
    "reader_of_files \<Rightarrow> (string \<Rightarrow> settings option) \<Rightarrow> string \<Rightarrow> (config_error, settings) outcome" where
  "load_settings read_file toml p =
     (case read_file p of
        None \<Rightarrow> Err (Unreadable p)
      | Some content \<Rightarrow> or_err (InvalidConfig p) (toml content))"

fun load_zone_list :: "reader_of_files \<Rightarrow> zone_settings list \<Rightarrow> (config_error, auth_zone list) outcome" where
  "load_zone_list read_file [] = Ok []"
| "load_zone_list read_file (z # zs) =
     obind (load_zone_file read_file (zs_file z)) (\<lambda>recs.
     obind (load_zone_list read_file zs) (\<lambda>rest.
       Ok (\<lparr>origin = to_lowercase (zs_origin z), records = recs\<rparr> # rest)))"

definition load_zones_from_settings ::
    "reader_of_files \<Rightarrow> settings \<Rightarrow> (config_error, zone_set) outcome" where
  "load_zones_from_settings read_file s =
     (case st_zone s of
        None \<Rightarrow> Ok zone_set_empty
      | Some cfgs \<Rightarrow> obind (load_zone_list read_file cfgs) (\<lambda>zs. Ok (zone_set_new zs)))"

definition parse_upstream_addr :: "string \<Rightarrow> (config_error, socket_addr) outcome" where
  "parse_upstream_addr s =
     (case parse_socket_addr s of
        Some a \<Rightarrow> Ok a
      | None \<Rightarrow> or_err (InvalidUpstream s) (parse_socket_addr (s @ '':53'')))"

fun parse_rules :: "forward_rule_settings list \<Rightarrow> (config_error, socket_addr forward_rule list) outcome" where
  "parse_rules [] = Ok []"
| "parse_rules (r # rs) =
     obind (parse_upstream_addr (fr_upstream r)) (\<lambda>a.
     obind (parse_rules rs) (\<lambda>rest. Ok (\<lparr>rule_suffix = to_lowercase (fr_suffix r), upstream = a\<rparr> # rest)))"

definition forward_rules_from_settings ::
    "settings \<Rightarrow> (config_error, socket_addr forward_rules) outcome" where
  "forward_rules_from_settings s =
     (case st_upstream s of
        None \<Rightarrow> Ok forward_rules_none
      | Some u \<Rightarrow>
          obind (case us_default u of
                   Some d \<Rightarrow> obind (parse_upstream_addr d) (\<lambda>a. Ok (Some a))
                 | None \<Rightarrow> Ok None) (\<lambda>def.
          obind (case us_rules u of Some rs \<Rightarrow> parse_rules rs | None \<Rightarrow> Ok []) (\<lambda>rs.
            Ok (forward_rules_new def rs))))"

section \<open>Lemmas\<close>

lemma or_err_not_Panic [simp]: "or_err e v \<noteq> Panic"
  by (simp add: or_err_def split: option.splits)

lemma parse_data_not_Panic: "parse_data parts dm t ty d \<noteq> Panic"
  unfolding parse_data_def by (simp add: obind_eq_Panic)

lemma parse_line_not_Panic: "parse_line l \<noteq> Panic"
  by (auto simp: parse_line_def Let_def obind_eq_Panic parse_data_not_Panic)

lemma parse_data_record:
  "parse_data parts dm t ty d = Ok (Some r) \<Longrightarrow> domain r = dm \<and> ttl r = t \<and> \<not> is_opt r"
  by (auto simp: parse_data_def split: if_split_asm)

lemma parse_line_record: "parse_line l = Ok (Some (dm, r)) \<Longrightarrow> domain r = dm \<and> \<not> is_opt r"
  by (auto simp: parse_line_def Let_def split: if_split_asm dest!: parse_data_record)

text \<open>What a line adds to the zone.\<close>

definition line_record :: "string \<Rightarrow> (string \<times> dns_record) option" where
  "line_record raw =
     (let line = trim raw in
      if line = [] \<or> hd line = CHR '';'' then None
      else (case parse_line line of Ok r \<Rightarrow> r | _ \<Rightarrow> None))"

lemma load_line_record:
  "load_line raw z = (case line_record raw of Some (dm, r) \<Rightarrow> zone_push dm r z | None \<Rightarrow> z)"
  by (auto simp: load_line_def line_record_def Let_def split: outcome.splits option.splits)

lemma line_record_domain: "line_record raw = Some (dm, r) \<Longrightarrow> domain r = dm \<and> \<not> is_opt r"
  by (auto simp: line_record_def Let_def split: if_split_asm outcome.splits dest: parse_line_record)

lemma map_of_zone_push:
  "map_of (zone_push dm r z) k
     = (if k = dm then Some ((case map_of z dm of Some rs \<Rightarrow> rs | None \<Rightarrow> []) @ [r]) else map_of z k)"
  by (induction dm r z rule: zone_push.induct) auto

lemma keys_zone_push: "fst ` set (zone_push dm r z) = insert dm (fst ` set z)"
  by (induction dm r z rule: zone_push.induct) auto

lemma wf_zone_push: "wf_zone z \<Longrightarrow> wf_zone (zone_push dm r z)"
proof (induction dm r z rule: zone_push.induct)
  case (2 dm r k rs z)
  then show ?case
    using keys_zone_push [of dm r z] by (auto simp: wf_zone_def)
qed (simp add: wf_zone_def)

text \<open>The records that the lines give for a name, in the order of the file.\<close>

definition records_for :: "string \<Rightarrow> string list \<Rightarrow> dns_record list" where
  "records_for k ls =
     List.map_filter (\<lambda>l. case line_record l of Some (dm, r) \<Rightarrow> (if dm = k then Some r else None) | None \<Rightarrow> None) ls"

lemma records_for_simps [simp]:
  "records_for k [] = []"
  "records_for k (l # ls) = (case line_record l of
      Some (dm, r) \<Rightarrow> (if dm = k then r # records_for k ls else records_for k ls) | None \<Rightarrow> records_for k ls)"
  by (auto simp: records_for_def map_filter_simps split: option.splits)

lemma load_lines_lookup:
  "map_of (fold load_line ls z) k
     = (let rs = records_for k ls in
        case map_of z k of None \<Rightarrow> (if rs = [] then None else Some rs) | Some old \<Rightarrow> Some (old @ rs))"
proof (induction ls arbitrary: z)
  case (Cons l ls)
  show ?case
    by (cases "line_record l")
       (auto simp: Cons.IH Let_def load_line_record [of l] map_of_zone_push split: option.splits if_splits)
qed (simp split: option.splits)

lemma wf_load_lines: "wf_zone z \<Longrightarrow> wf_zone (fold load_line ls z)"
  by (induction ls arbitrary: z) (auto simp: load_line_record wf_zone_push split: option.splits)

lemma records_for_domain: "r \<in> set (records_for k ls) \<Longrightarrow> domain r = k \<and> \<not> is_opt r"
  by (induction ls) (auto dest: line_record_domain split: option.splits if_splits)


section \<open>Properties\<close>

text \<open>
  C27: loading a zone file: under every name the zone holds exactly the records of the well-formed
  lines for that name, in the order of the file; blank lines, comments, unknown record types and
  malformed lines add nothing and disturb nothing.
\<close>

theorem load_zone_lookup:
  "map_of (load_zone content) k
     = (if records_for k (lines content) = [] then None else Some (records_for k (lines content)))"
  by (simp add: load_zone_def load_lines_lookup Let_def)

text \<open>
  C28: a loaded zone is well formed: every name occurs once, with at least one record, and every
  record is stored under its own owner name and is no OPT pseudo-record.
\<close>

theorem load_zone_wf:
  "wf_zone (load_zone content) \<and>
   (\<forall>k rs. (k, rs) \<in> set (load_zone content) \<longrightarrow> rs \<noteq> [] \<and> (\<forall>r \<in> set rs. domain r = k \<and> \<not> is_opt r))"
proof (intro conjI allI impI)
  show wf: "wf_zone (load_zone content)"
    unfolding load_zone_def by (rule wf_load_lines) (simp add: wf_zone_def)
  fix k rs
  assume "(k, rs) \<in> set (load_zone content)"
  then have "map_of (load_zone content) k = Some rs" using wf by (simp add: wf_zone_def)
  then have "rs = records_for k (lines content)" "rs \<noteq> []"
    by (auto simp: load_zone_def load_lines_lookup Let_def split: if_splits)
  then show "rs \<noteq> []" "\<forall>r \<in> set rs. domain r = k \<and> \<not> is_opt r"
    by (auto dest: records_for_domain)
qed

definition sample_file :: string where
  "sample_file = ''; c'' @ [CHR 0x0A] @ ''E.   60 A 1.2.3.4'' @ [CHR 0x0A] @ ''e. x A 1.2.3.4''"

theorem load_zone_wf_witness:
  "load_zone sample_file = [(''e'', [A ''e'' 0x01020304 60])] \<and>
   domain (A ''e'' 0x01020304 60) = ''e''"
proof -
  have l: "load_zone sample_file = [(''e'', [A ''e'' 0x01020304 60])]" by code_simp
  with load_zone_wf [of sample_file] show ?thesis by simp
qed

text \<open>
  Conditional forwarding: a name that some rule's suffix matches is forwarded to the upstream
  of a matching rule with the longest suffix; any other name to the default.
\<close>

theorem match_name_longest:
  "((\<forall>r \<in> set rs. \<not> rule_matches r n) \<and> match_name (forward_rules_new def rs) n = def) \<or>
   (\<exists>r \<in> set rs. rule_matches r n \<and> match_name (forward_rules_new def rs) n = Some (upstream r) \<and>
      (\<forall>y \<in> set rs. rule_matches y n \<longrightarrow> length (rule_suffix y) \<le> length (rule_suffix r)))"
proof (cases "List.find (\<lambda>r. rule_matches r n) (sort_key (\<lambda>r. - int (length (rule_suffix r))) rs)")
  case None
  then have "match_name (forward_rules_new def rs) n = def"
    by (simp add: match_name_def forward_rules_new_def)
  with None show ?thesis unfolding ft.find_None by blast
next
  case (Some r)
  from ft.first_is_longest [OF Some] Some show ?thesis
    by (auto simp: match_name_def forward_rules_new_def intro!: bexI [of _ r])
qed

theorem match_name_longest_witness:
  "match_name (forward_rules_new (Some (0 :: nat))
     [\<lparr>rule_suffix = ''b'', upstream = 1\<rparr>, \<lparr>rule_suffix = ''a.b'', upstream = 2\<rparr>]) ''x.a.b'' = Some 2"
proof -
  let ?rs = "[\<lparr>rule_suffix = ''b'', upstream = 1\<rparr>, \<lparr>rule_suffix = ''a.b'', upstream = 2 :: nat\<rparr>]"
  have m: "rule_matches (\<lparr>rule_suffix = ''b'', upstream = 1 :: nat\<rparr>) ''x.a.b''"
    "rule_matches (\<lparr>rule_suffix = ''a.b'', upstream = 2 :: nat\<rparr>) ''x.a.b''"
    by code_simp+
  from match_name_longest [of ?rs "''x.a.b''" "Some 0"] m show ?thesis by auto
qed

end
