(* ===== verification/Dash_Map.thy ===== *)
theory Dash_Map
  imports Prelude
begin

text \<open>
  The operations of \<^verbatim>\<open>DashMap\<close> the program uses, on association lists with distinct keys.  The
  list order carries no meaning: which entry an iteration yields first is a parameter of the
  operations that iterate (\<open>iterates\<close> is what they rely on).
\<close>

section \<open>Concurrent maps\<close>

type_synonym ('k, 'v) dash_map = "('k \<times> 'v) list"

definition dm_insert :: "'k \<Rightarrow> 'v \<Rightarrow> ('k, 'v) dash_map \<Rightarrow> ('k, 'v) dash_map" where
  "dm_insert k v m = (k, v) # filter (\<lambda>(k', _). k' \<noteq> k) m"

definition dm_remove :: "'k \<Rightarrow> ('k, 'v) dash_map \<Rightarrow> ('k, 'v) dash_map" where
  "dm_remove k m = filter (\<lambda>(k', _). k' \<noteq> k) m"

definition dm_retain :: "('k \<Rightarrow> 'v \<Rightarrow> bool) \<Rightarrow> ('k, 'v) dash_map \<Rightarrow> ('k, 'v) dash_map" where
  "dm_retain keep m = filter (\<lambda>(k, v). keep k v) m"

definition wf_map :: "('k, 'v) dash_map \<Rightarrow> bool" where
  "wf_map m \<longleftrightarrow> distinct (map fst m)"

lemma map_of_dm_insert [simp]: "map_of (dm_insert k v m) = (map_of m)(k \<mapsto> v)"
proof
  fix x
  have "map_of (filter (\<lambda>(k', _). k' \<noteq> k) m) x = map_of m x" if "x \<noteq> k"
    using that by (induction m) auto
  then show "map_of (dm_insert k v m) x = ((map_of m)(k \<mapsto> v)) x" by (simp add: dm_insert_def)
qed

lemma map_of_dm_remove [simp]: "map_of (dm_remove k m) = (map_of m)(k := None)"
proof
  fix x
  show "map_of (dm_remove k m) x = ((map_of m)(k := None)) x"
    unfolding dm_remove_def by (induction m) auto
qed

lemma map_of_dm_retain:
  "wf_map m \<Longrightarrow> map_of (dm_retain keep m) k
     = (case map_of m k of None \<Rightarrow> None | Some v \<Rightarrow> (if keep k v then Some v else None))"
  unfolding dm_retain_def wf_map_def
proof (induction m)
  case (Cons p m)
  obtain k' v' where p: "p = (k', v')" by fastforce
  have "map_of m k' = None" using Cons.prems p by (auto simp: map_of_eq_None_iff)
  then show ?case using Cons p by auto
qed simp

lemma distinct_keys_filter: "distinct (map fst m) \<Longrightarrow> distinct (map fst (filter P m))"
  by (induction m) auto

lemma wf_dm_insert: "wf_map m \<Longrightarrow> wf_map (dm_insert k v m)"
  by (auto simp: wf_map_def dm_insert_def distinct_keys_filter)

lemma wf_dm_remove: "wf_map m \<Longrightarrow> wf_map (dm_remove k m)"
  by (simp add: wf_map_def dm_remove_def distinct_keys_filter)

lemma wf_dm_retain: "wf_map m \<Longrightarrow> wf_map (dm_retain keep m)"
  by (simp add: wf_map_def dm_retain_def distinct_keys_filter)

lemma length_dm_remove: "wf_map m \<Longrightarrow> map_of m k \<noteq> None \<Longrightarrow> length (dm_remove k m) = length m - 1"
  unfolding dm_remove_def wf_map_def
proof (induction m)
  case (Cons p m)
  obtain k' v' where p: "p = (k', v')" by fastforce
  show ?case
  proof (cases "k' = k")
    case True
    then have "filter (\<lambda>(k', _). k' \<noteq> k) m = m"
      using Cons.prems(1) p by (auto simp: filter_id_conv image_iff)
    with True p show ?thesis by simp
  next
    case False
    with Cons p have "map_of m k \<noteq> None" by simp
    then have "m \<noteq> []" by auto
    with False Cons p \<open>map_of m k \<noteq> None\<close> show ?thesis by (cases m) auto
  qed
qed simp

lemma length_dm_remove_le: "length (dm_remove k m) \<le> length m"
  by (simp add: dm_remove_def)

lemma length_dm_retain_le: "length (dm_retain keep m) \<le> length m"
  by (simp add: dm_retain_def)

lemma length_dm_insert:
  "wf_map m \<Longrightarrow> length (dm_insert k v m) = (if map_of m k = None then Suc (length m) else length m)"
proof (cases "map_of m k")
  case None
  then have "filter (\<lambda>(k', _). k' \<noteq> k) m = m"
    by (auto simp: filter_id_conv map_of_eq_None_iff image_iff)
  with None show ?thesis by (simp add: dm_insert_def)
next
  case (Some w)
  assume "wf_map m"
  moreover have "m \<noteq> []" using Some by auto
  ultimately show ?thesis
    using Some length_dm_remove [of m k] by (cases m) (auto simp: dm_insert_def dm_remove_def)
qed

definition iterates :: "(('k, 'v) dash_map \<Rightarrow> 'k option) \<Rightarrow> bool" where
  "iterates first_key \<longleftrightarrow>
     (\<forall>m. case first_key m of None \<Rightarrow> m = [] | Some k \<Rightarrow> k \<in> fst ` set m)"

end
