(* ===== verification/Cache.thy ===== *)
theory Cache
  imports Std_Lowercase Dash_Map
begin

text \<open>
  The response cache of \<^verbatim>\<open>src/cache.rs\<close>.

  The entry the iterator of the map yields first depends on its shards and hashes, so it is a
  parameter \<open>first_key\<close> of the eviction; what the code relies on is that the iterator of a
  non-empty map yields a key of the map (\<open>iterates first_key\<close>).  An \<^verbatim>\<open>Instant\<close> is a number of nanoseconds; the two readings of the clock
  in \<^verbatim>\<open>insert\<close> are two arguments.
\<close>

section \<open>The cache\<close>

type_synonym cache_key = "string \<times> u16"

record cache_entry =
  response :: bytes
  expires_at :: nat

record cache =
  cache_map :: "(cache_key, cache_entry) dash_map"
  capacity :: nat

abbreviation SECOND :: nat where
  "SECOND \<equiv> 1000000000"

definition cache_new :: "nat \<Rightarrow> cache" where
  "cache_new cap = \<lparr>cache_map = [], capacity = cap\<rparr>"

definition cache_get :: "nat \<Rightarrow> string \<Rightarrow> u16 \<Rightarrow> cache \<Rightarrow> bytes option \<times> cache" where
  "cache_get now name qt c =
     (let key = (to_lowercase name, qt) in
      case map_of (cache_map c) key of
        Some e \<Rightarrow>
          if now < expires_at e then (Some (response e), c)
          else (None, c\<lparr>cache_map := dm_remove key (cache_map c)\<rparr>)
      | None \<Rightarrow> (None, c))"

definition cache_len :: "cache \<Rightarrow> nat" where
  "cache_len c = length (cache_map c)"

definition cache_is_empty :: "cache \<Rightarrow> bool" where
  "cache_is_empty c \<longleftrightarrow> cache_map c = []"

definition evict_if_full ::
    "((cache_key, cache_entry) dash_map \<Rightarrow> cache_key option) \<Rightarrow> nat \<Rightarrow> cache \<Rightarrow> cache" where
  "evict_if_full first_key now c =
     (if cache_len c < capacity c then c
      else
        let c1 = c\<lparr>cache_map := dm_retain (\<lambda>_ e. now < expires_at e) (cache_map c)\<rparr> in
        if capacity c1 \<le> cache_len c1 then
          (case first_key (cache_map c1) of
             Some victim \<Rightarrow> c1\<lparr>cache_map := dm_remove victim (cache_map c1)\<rparr>
           | None \<Rightarrow> c1)
        else c1)"

definition cache_insert ::
    "((cache_key, cache_entry) dash_map \<Rightarrow> cache_key option) \<Rightarrow> nat \<Rightarrow> nat \<Rightarrow> string \<Rightarrow> u16 \<Rightarrow> bytes \<Rightarrow> u32 \<Rightarrow>
       cache \<Rightarrow> cache" where
  "cache_insert first_key now now' name qt resp ttl_secs c =
     (if resp = [] \<or> ttl_secs = 0 then c
      else
        let key = (to_lowercase name, qt);
            c1 = (if map_of (cache_map c) key = None then evict_if_full first_key now c else c)
        in c1\<lparr>cache_map := dm_insert key
               \<lparr>response = resp, expires_at = now' + unat ttl_secs * SECOND\<rparr> (cache_map c1)\<rparr>)"

text \<open>A sequence of operations on the cache, as its clients interleave them.\<close>

datatype cache_op =
    Insert nat nat string u16 bytes u32
      \<comment> \<open>the two clock readings, name, type, response, ttl\<close>
  | Get nat string u16

fun cache_step :: "((cache_key, cache_entry) dash_map \<Rightarrow> cache_key option) \<Rightarrow> cache_op \<Rightarrow> cache \<Rightarrow> cache" where
  "cache_step fk (Insert now now' n qt r t) c = cache_insert fk now now' n qt r t c"
| "cache_step fk (Get now n qt) c = snd (cache_get now n qt c)"

definition cache_run :: "((cache_key, cache_entry) dash_map \<Rightarrow> cache_key option) \<Rightarrow> cache_op list \<Rightarrow> cache \<Rightarrow> cache" where
  "cache_run fk ops c = fold (cache_step fk) ops c"


section \<open>Invariants\<close>

definition cache_inv :: "cache \<Rightarrow> bool" where
  "cache_inv c \<longleftrightarrow> wf_map (cache_map c) \<and> cache_len c \<le> max 1 (capacity c)"

lemma wf_evict: "wf_map (cache_map c) \<Longrightarrow> wf_map (cache_map (evict_if_full fk now c))"
  by (auto simp: evict_if_full_def Let_def wf_dm_remove wf_dm_retain split: option.splits)

lemma capacity_evict [simp]: "capacity (evict_if_full fk now c) = capacity c"
  by (auto simp: evict_if_full_def Let_def split: option.splits)

lemma evict_makes_room:
  assumes "iterates fk" and "wf_map (cache_map c)" and "cache_len c \<le> max 1 (capacity c)"
  shows "cache_len (evict_if_full fk now c) + 1 \<le> max 1 (capacity c)"
proof (cases "cache_len c < capacity c")
  case True
  then show ?thesis by (simp add: evict_if_full_def)
next
  case False
  let ?m = "dm_retain (\<lambda>_ e. now < expires_at e) (cache_map c)"
  have le: "length ?m \<le> max 1 (capacity c)"
    using length_dm_retain_le [of _ "cache_map c"] assms(3) by (auto simp: cache_len_def intro: order_trans)
  show ?thesis
  proof (cases "capacity c \<le> length ?m")
    case room: True
    show ?thesis
    proof (cases "fk ?m")
      case None
      then have "?m = []" using assms(1) by (auto simp: iterates_def dest: spec [of _ ?m])
      with False room None show ?thesis by (simp add: evict_if_full_def Let_def cache_len_def)
    next
      case (Some k)
      then have "k \<in> fst ` set ?m" using assms(1) by (auto simp: iterates_def dest: spec [of _ ?m])
      then have "map_of ?m k \<noteq> None" by (simp add: map_of_eq_None_iff)
      then have "length (dm_remove k ?m) = length ?m - 1" "?m \<noteq> []"
        using length_dm_remove [OF wf_dm_retain [OF assms(2)]] by auto
      with False room Some le show ?thesis
        by (cases ?m) (auto simp: evict_if_full_def Let_def cache_len_def)
    qed
  next
    case room: False
    with False show ?thesis by (simp add: evict_if_full_def Let_def cache_len_def)
  qed
qed

lemma cache_inv_new [simp]: "cache_inv (cache_new cap)"
  by (simp add: cache_inv_def cache_new_def wf_map_def cache_len_def)

lemma cache_inv_get: "cache_inv c \<Longrightarrow> cache_inv (snd (cache_get now n qt c))"
  by (auto simp: cache_inv_def cache_get_def Let_def cache_len_def wf_dm_remove split: option.splits
      intro: order_trans [OF length_dm_remove_le])

lemma cache_inv_insert:
  assumes "iterates fk" and "cache_inv c"
  shows "cache_inv (cache_insert fk now now' n qt r t c)"
proof -
  let ?k = "(to_lowercase n, qt)"
  have wf: "wf_map (cache_map c)" and len: "cache_len c \<le> max 1 (capacity c)"
    using assms(2) by (auto simp: cache_inv_def)
  show ?thesis
  proof (cases "map_of (cache_map c) ?k")
    case None
    have "length (dm_insert ?k v (cache_map (evict_if_full fk now c))) \<le> Suc (cache_len (evict_if_full fk now c))" for v
      using length_dm_insert [OF wf_evict [OF wf]] by (simp add: cache_len_def)
    with evict_makes_room [OF assms(1) wf len] assms(2) None show ?thesis
      by (auto simp: cache_inv_def cache_insert_def Let_def cache_len_def wf_dm_insert wf_evict
          intro: order_trans)
  next
    case (Some e)
    then show ?thesis
      using assms(2) by (simp add: cache_inv_def cache_insert_def Let_def cache_len_def wf_dm_insert length_dm_insert)
  qed
qed

lemma cache_inv_run: "iterates fk \<Longrightarrow> cache_inv c \<Longrightarrow> cache_inv (cache_run fk ops c)"
  unfolding cache_run_def
proof (induction ops arbitrary: c)
  case (Cons op ops)
  then show ?case by (cases op) (simp_all add: cache_inv_insert cache_inv_get)
qed simp

lemma capacity_run [simp]: "capacity (cache_run fk ops c) = capacity c"
  unfolding cache_run_def
proof (induction ops arbitrary: c)
  case (Cons op ops)
  then show ?case by (cases op) (auto simp: cache_insert_def cache_get_def Let_def split: option.splits)
qed simp


section \<open>The contract of a response store\<close>

text \<open>
  What the query path relies on: an operation that stores a value makes it visible under its key
  until it expires, and no operation makes another value visible.  A store may forget.
\<close>

locale response_store =
  fixes look :: "nat \<Rightarrow> 'c \<Rightarrow> 'k \<Rightarrow> 'v option"
    and step :: "'op \<Rightarrow> 'c \<Rightarrow> 'c"
    and stores :: "'op \<Rightarrow> ('k \<times> 'v \<times> nat) option"
    and inv :: "'c \<Rightarrow> bool"
  assumes inv_step: "inv c \<Longrightarrow> inv (step op c)"
    and look_stored: "inv c \<Longrightarrow> stores op = Some (k, v, e) \<Longrightarrow>
      look now (step op c) k = (if now < e then Some v else None)"
    and look_other: "inv c \<Longrightarrow> (\<forall>v e. stores op \<noteq> Some (k, v, e)) \<Longrightarrow>
      look now (step op c) k = Some w \<Longrightarrow> look now c k = Some w"
begin

lemma inv_fold: "inv c \<Longrightarrow> inv (fold step ops c)"
  by (induction ops arbitrary: c) (simp_all add: inv_step)

lemma look_fold:
  assumes "inv c" and "look now (fold step ops c) k = Some v"
  shows "look now c k = Some v \<or>
    (\<exists>pre op post e. ops = pre @ op # post \<and> stores op = Some (k, v, e) \<and> now < e \<and>
       (\<forall>op' \<in> set post. \<forall>w e'. stores op' \<noteq> Some (k, w, e')))"
  using assms
proof (induction ops arbitrary: c rule: rev_induct)
  case (snoc op ops)
  show ?case
  proof (cases "\<exists>w e. stores op = Some (k, w, e)")
    case True
    then obtain w e where st: "stores op = Some (k, w, e)" by blast
    from look_stored [OF inv_fold [OF snoc.prems(1)] st, of now ops] snoc.prems have "now < e" "w = v"
      by (auto split: if_splits)
    with st have "ops @ [op] = ops @ op # [] \<and> stores op = Some (k, v, e) \<and> now < e \<and>
       (\<forall>op' \<in> set []. \<forall>w e'. stores op' \<noteq> Some (k, w, e'))" by simp
    then show ?thesis by blast
  next
    case False
    with snoc.prems have "look now (fold step ops c) k = Some v"
      using look_other [OF inv_fold [OF snoc.prems(1)]] by auto
    from snoc.IH [OF snoc.prems(1) this] show ?thesis
    proof
      assume "\<exists>pre op' post e. ops = pre @ op' # post \<and> stores op' = Some (k, v, e) \<and> now < e \<and>
         (\<forall>op' \<in> set post. \<forall>w e'. stores op' \<noteq> Some (k, w, e'))"
      then obtain pre op' post e where "ops = pre @ op' # post" "stores op' = Some (k, v, e)" "now < e"
        "\<forall>op' \<in> set post. \<forall>w e'. stores op' \<noteq> Some (k, w, e')" by blast
      with False have "ops @ [op] = pre @ op' # (post @ [op]) \<and> stores op' = Some (k, v, e) \<and> now < e \<and>
         (\<forall>op' \<in> set (post @ [op]). \<forall>w e'. stores op' \<noteq> Some (k, w, e'))" by auto
      then show ?thesis by blast
    qed simp
  qed
qed simp

end

definition cache_look :: "nat \<Rightarrow> cache \<Rightarrow> cache_key \<Rightarrow> bytes option" where
  "cache_look now c k =
     (case map_of (cache_map c) k of
        Some e \<Rightarrow> (if now < expires_at e then Some (response e) else None)
      | None \<Rightarrow> None)"

fun cache_stores :: "cache_op \<Rightarrow> (cache_key \<times> bytes \<times> nat) option" where
  "cache_stores (Insert now now' n qt r t) =
     (if r = [] \<or> t = 0 then None else Some ((to_lowercase n, qt), r, now' + unat t * SECOND))"
| "cache_stores (Get now n qt) = None"

lemma cache_get_look: "fst (cache_get now n qt c) = cache_look now c (to_lowercase n, qt)"
  by (auto simp: cache_get_def cache_look_def Let_def split: option.splits)

lemma map_of_retain_Some: "map_of (dm_retain keep m) k = Some v \<Longrightarrow> wf_map m \<Longrightarrow> map_of m k = Some v"
  by (auto simp: map_of_dm_retain split: option.splits if_splits)

lemma evict_only_forgets:
  "wf_map (cache_map c) \<Longrightarrow> map_of (cache_map (evict_if_full fk now c)) k = Some v \<Longrightarrow>
     map_of (cache_map c) k = Some v"
  by (auto simp: evict_if_full_def Let_def dest: map_of_retain_Some split: option.splits if_splits)

interpretation rs: response_store cache_look "cache_step fk" cache_stores "\<lambda>c :: cache. wf_map (cache_map c)"
proof
  fix c :: cache and op :: cache_op and k :: cache_key and v w :: bytes and e now :: nat
  assume wf: "wf_map (cache_map c)"
  show "wf_map (cache_map (cache_step fk op c))"
    using wf by (cases op) (auto simp: cache_insert_def cache_get_def Let_def wf_dm_insert wf_evict wf_dm_remove
      split: option.splits)
  show "cache_look now (cache_step fk op c) k = (if now < e then Some v else None)"
    if "cache_stores op = Some (k, v, e)"
    using that by (cases op) (auto simp: cache_insert_def cache_look_def Let_def split: if_splits)
  show "cache_look now c k = Some w"
    if "\<forall>v e. cache_stores op \<noteq> Some (k, v, e)" "cache_look now (cache_step fk op c) k = Some w"
  proof (cases op)
    case (Get t n qt)
    with that show ?thesis
      by (auto simp: cache_get_def cache_look_def Let_def split: option.splits if_splits)
  next
    case (Insert t t' n qt r ttl)
    with that show ?thesis
      by (auto simp: cache_insert_def cache_look_def Let_def split: option.splits if_splits
          dest: evict_only_forgets [OF wf])
  qed
qed


section \<open>Properties\<close>

definition first_listed :: "(cache_key, cache_entry) dash_map \<Rightarrow> cache_key option" where
  "first_listed m = (case m of [] \<Rightarrow> None | (k, _) # _ \<Rightarrow> Some k)"

lemma iterates_first_listed: "iterates first_listed"
  by (auto simp: iterates_def first_listed_def split: list.splits)

text \<open>
  C9: the cache never invents, mixes up or resurrects a response: after any sequence of
  operations on a new cache, a hit for a name and type is the response of the last insertion made
  under that (lowercased) name and type, and that insertion has not expired.
\<close>

theorem cache_hit_provenance:
  assumes "fst (cache_get now n qt (cache_run fk ops (cache_new cap))) = Some resp"
  shows "\<exists>pre t t' m secs post. ops = pre @ Insert t t' m qt resp secs # post \<and>
     to_lowercase m = to_lowercase n \<and> now < t' + unat secs * SECOND \<and> resp \<noteq> [] \<and> secs \<noteq> 0 \<and>
     (\<forall>op \<in> set post. \<forall>w e. cache_stores op \<noteq> Some ((to_lowercase n, qt), w, e))"
proof -
  let ?k = "(to_lowercase n, qt)"
  have wf: "wf_map (cache_map (cache_new cap))" by (simp add: cache_new_def wf_map_def)
  have empty: "cache_look now (cache_new cap) ?k = None" by (simp add: cache_look_def cache_new_def)
  from assms have "cache_look now (fold (cache_step fk) ops (cache_new cap)) ?k = Some resp"
    by (simp add: cache_get_look cache_run_def)
  from rs.look_fold [OF wf this] empty obtain pre op post e where
    split: "ops = pre @ op # post" "cache_stores op = Some (?k, resp, e)" "now < e"
      "\<forall>op' \<in> set post. \<forall>w e'. cache_stores op' \<noteq> Some (?k, w, e')" by auto
  from split(2) obtain t t' m secs where "op = Insert t t' m qt resp secs" "to_lowercase m = to_lowercase n"
    "e = t' + unat secs * SECOND" "resp \<noteq> []" "secs \<noteq> 0"
    by (cases op) (auto split: if_splits)
  with split show ?thesis by blast
qed

theorem cache_hit_provenance_witness:
  "fst (cache_get 5 ''A.b'' 1 (cache_run first_listed [Insert 1 1 ''a.B'' 1 [9] 60] (cache_new 4))) = Some [9] \<and>
   (\<exists>pre t t' m secs post. [Insert 1 1 ''a.B'' 1 [9] 60] = pre @ Insert t t' m 1 [9] secs # post \<and>
     to_lowercase m = to_lowercase ''A.b'' \<and> 5 < t' + unat secs * SECOND)"
proof -
  have hit: "fst (cache_get 5 ''A.b'' 1 (cache_run first_listed [Insert 1 1 ''a.B'' 1 [9] 60] (cache_new 4))) = Some [9]"
    by code_simp
  from cache_hit_provenance [OF hit] hit show ?thesis by blast
qed

text \<open>
  A response that was accepted is found again under its name, in any letter case, until it
  expires and not afterwards.
\<close>

theorem cache_get_insert:
  assumes "resp \<noteq> []" and "secs \<noteq> 0" and "to_lowercase m = to_lowercase n"
  shows "fst (cache_get now m qt (cache_insert fk t t' n qt resp secs c))
     = (if now < t' + unat secs * SECOND then Some resp else None)"
  using assms by (auto simp: cache_get_look cache_look_def cache_insert_def Let_def)

theorem cache_get_insert_witness:
  "fst (cache_get 7 ''B'' 1 (cache_insert first_listed 0 0 ''b'' 1 [1, 2] 3 (cache_new 0))) = Some [1, 2]"
proof -
  have "to_lowercase ''B'' = to_lowercase ''b''" by code_simp
  from cache_get_insert [OF _ _ this, of "[1, 2]" 3] show ?thesis by simp
qed

text \<open>
  Whatever the sequence of operations, the cache holds one entry per key and at most
  \<open>max 1 capacity\<close> entries.
\<close>

theorem cache_capacity:
  assumes "iterates fk"
  shows "wf_map (cache_map (cache_run fk ops (cache_new cap))) \<and>
    cache_len (cache_run fk ops (cache_new cap)) \<le> max 1 cap"
  using cache_inv_run [OF assms cache_inv_new] by (simp add: cache_inv_def) (simp add: cache_new_def)

theorem cache_capacity_witness:
  "cache_len (cache_run first_listed [Insert 0 0 ''a'' 1 [1] 9, Insert 0 0 ''b'' 1 [1] 9] (cache_new 1)) \<le> 1"
  using cache_capacity [OF iterates_first_listed, of "[Insert 0 0 ''a'' 1 [1] 9, Insert 0 0 ''b'' 1 [1] 9]" 1]
  by simp

text \<open>
  A cache of capacity zero still keeps the last response, so the bound of one entry in the
  invariant is reached where the documentation promises at most \<open>capacity\<close> entries.
\<close>

theorem cache_capacity_zero:
  "capacity (cache_new 0) = 0 \<and>
   cache_len (cache_insert fk now now ''a'' 1 [1] 9 (cache_new 0)) = 1"
  by (simp add: cache_new_def cache_insert_def evict_if_full_def Let_def cache_len_def dm_retain_def dm_insert_def
      dm_remove_def split: option.splits)

text \<open>
  Eviction is gentle: an insertion forgets at most one response that has not expired.
\<close>

theorem cache_insert_keeps_live:
  assumes "wf_map (cache_map c)"
  shows "\<exists>victim. \<forall>k. k \<noteq> victim \<longrightarrow> k \<noteq> (to_lowercase n, qt) \<longrightarrow>
     cache_look now (cache_insert fk now now' n qt resp secs c) k = cache_look now c k"
proof -
  let ?m = "dm_retain (\<lambda>_ e. now < expires_at e) (cache_map c)"
  define victim where "victim = (case fk ?m of Some k \<Rightarrow> k | None \<Rightarrow> (to_lowercase n, qt))"
  have retain: "cache_look now (c\<lparr>cache_map := ?m\<rparr>) k = cache_look now c k" for k
    using assms by (auto simp: cache_look_def map_of_dm_retain split: option.splits)
  have evict: "cache_look now (evict_if_full fk now c) k = cache_look now c k" if "k \<noteq> victim" for k
    using that retain [of k] by (auto simp: evict_if_full_def Let_def victim_def cache_look_def split: option.splits)
  have "cache_look now (cache_insert fk now now' n qt resp secs c) k = cache_look now c k"
    if "k \<noteq> victim" "k \<noteq> (to_lowercase n, qt)" for k
    using evict [OF that(1)] that(2) by (auto simp: cache_insert_def Let_def cache_look_def)
  then show ?thesis by blast
qed

theorem cache_insert_keeps_live_witness:
  "\<exists>victim. \<forall>k. k \<noteq> victim \<longrightarrow> k \<noteq> (to_lowercase ''b'', 1) \<longrightarrow>
     cache_look 3 (cache_insert first_listed 3 3 ''b'' 1 [1] 9
       (cache_run first_listed [Insert 0 0 ''a'' 1 [1] 9] (cache_new 1))) k
     = cache_look 3 (cache_run first_listed [Insert 0 0 ''a'' 1 [1] 9] (cache_new 1)) k"
proof -
  have "wf_map (cache_map (cache_run first_listed [Insert 0 0 ''a'' 1 [1] 9] (cache_new 1)))" by code_simp
  then show ?thesis by (rule cache_insert_keeps_live)
qed

end
