(* ===== verification/Rate_Limiter.thy ===== *)
theory Rate_Limiter
  imports Std_Parse Dash_Map
begin

text \<open>
  The per-client fixed-window rate limiter of \<^verbatim>\<open>src/ratelimit.rs\<close>.  Time is a number of
  nanoseconds, the clock reading of a call is its argument; the counter is a 32-bit word, so
  \<^verbatim>\<open>count += 1\<close> wraps (the release profile has no overflow checks).
\<close>

record window =
  started_at :: nat
  count :: u32

record rate_limiter =
  max_per_window :: u32
  window_len :: nat
  clients :: "(ip_addr, window) dash_map"

definition limiter_new :: "u32 \<Rightarrow> nat \<Rightarrow> rate_limiter" where
  "limiter_new mx w = \<lparr>max_per_window = mx, window_len = w, clients = []\<rparr>"

definition limiter_disabled :: rate_limiter where
  "limiter_disabled = limiter_new 0 1000000000"

definition allow :: "nat \<Rightarrow> ip_addr \<Rightarrow> rate_limiter \<Rightarrow> bool \<times> rate_limiter" where
  "allow now ip lim =
     (if max_per_window lim = 0 then (True, lim)
      else
        let w = (case map_of (clients lim) ip of
                   Some w \<Rightarrow> w | None \<Rightarrow> \<lparr>started_at = now, count = 0\<rparr>);
            w1 = (if started_at w \<le> now \<and> window_len lim \<le> now - started_at w
                  then w\<lparr>started_at := now, count := 0\<rparr> else w);
            w2 = w1\<lparr>count := count w1 + 1\<rparr>
        in (count w2 \<le> max_per_window lim, lim\<lparr>clients := dm_insert ip w2 (clients lim)\<rparr>))"

definition tracked_clients :: "rate_limiter \<Rightarrow> nat" where
  "tracked_clients lim = length (clients lim)"

definition cleanup :: "nat \<Rightarrow> rate_limiter \<Rightarrow> rate_limiter" where
  "cleanup now lim =
     lim\<lparr>clients := dm_retain (\<lambda>_ w. now - started_at w < window_len lim) (clients lim)\<rparr>"


section \<open>Counting what is allowed\<close>

text \<open>The calls of one client at the times \<open>ts\<close>, and how many of them are allowed.\<close>

fun allowed :: "nat list \<Rightarrow> ip_addr \<Rightarrow> rate_limiter \<Rightarrow> nat" where
  "allowed [] ip lim = 0"
| "allowed (t # ts) ip lim =
     (let (ok, lim') = allow t ip lim in (if ok then 1 else 0) + allowed ts ip lim')"

text \<open>The state of one client: its window and count, and what one call does to it.\<close>

fun tick :: "nat \<Rightarrow> nat \<Rightarrow> (nat \<times> u32) option \<Rightarrow> nat \<times> u32" where
  "tick w now None = (now, 1)"
| "tick w now (Some (s, c)) = (if s \<le> now \<and> w \<le> now - s then (now, 1) else (s, c + 1))"

definition client :: "rate_limiter \<Rightarrow> ip_addr \<Rightarrow> (nat \<times> u32) option" where
  "client lim ip = map_option (\<lambda>w. (started_at w, count w)) (map_of (clients lim) ip)"

lemma allow_client:
  assumes "max_per_window lim \<noteq> 0"
  shows "fst (allow now ip lim) \<longleftrightarrow> snd (tick (window_len lim) now (client lim ip)) \<le> max_per_window lim"
    and "client (snd (allow now ip lim)) ip = Some (tick (window_len lim) now (client lim ip))"
    and "ip' \<noteq> ip \<Longrightarrow> client (snd (allow now ip lim)) ip' = client lim ip'"
    and "max_per_window (snd (allow now ip lim)) = max_per_window lim"
    and "window_len (snd (allow now ip lim)) = window_len lim"
  using assms
  by (auto simp: allow_def client_def Let_def split: option.splits)

fun allowed_client :: "u32 \<Rightarrow> nat \<Rightarrow> nat list \<Rightarrow> (nat \<times> u32) option \<Rightarrow> nat" where
  "allowed_client mx w [] st = 0"
| "allowed_client mx w (t # ts) st =
     (if snd (tick w t st) \<le> mx then 1 else 0) + allowed_client mx w ts (Some (tick w t st))"

lemma allowed_eq: "max_per_window lim \<noteq> 0 \<Longrightarrow>
    allowed ts ip lim = allowed_client (max_per_window lim) (window_len lim) ts (client lim ip)"
  by (induction ts arbitrary: lim) (auto simp: allow_client split_def Let_def)

lemma unat_add_1: "unat (c :: u32) < 2 ^ 32 - 1 \<Longrightarrow> unat (c + 1) = unat c + 1"
  by (simp add: unat_word_ariths)

text \<open>Inside one window the allowance that is left runs out.\<close>

lemma allowed_within_window:
  "\<forall>t \<in> set ts. t < s + w \<Longrightarrow> unat c + length ts < 2 ^ 32 \<Longrightarrow>
     allowed_client mx w ts (Some (s, c)) \<le> unat mx - unat c"
proof (induction ts arbitrary: c)
  case (Cons t ts)
  then have tick: "tick w t (Some (s, c)) = (s, c + 1)" by auto
  have u: "unat (c + 1) = unat c + 1" using Cons.prems(2) by (intro unat_add_1) simp
  have "allowed_client mx w ts (Some (s, c + 1)) \<le> unat mx - unat (c + 1)"
    by (rule Cons.IH) (use Cons.prems u in auto)
  moreover have "c + 1 \<le> mx \<longleftrightarrow> unat c + 1 \<le> unat mx" by (simp add: word_le_nat_alt u)
  ultimately show ?case using tick u by auto
qed simp

text \<open>In any stretch of time of one window's length the counter restarts at most once.\<close>

lemma allowed_burst:
  "sorted ts \<Longrightarrow> \<forall>t \<in> set ts. a \<le> t \<and> t < a + w \<Longrightarrow> unat c + length ts < 2 ^ 32 \<Longrightarrow> 1 \<le> unat mx \<Longrightarrow>
     allowed_client mx w ts (Some (s, c)) \<le> (unat mx - unat c) + unat mx"
proof (induction ts arbitrary: c)
  case (Cons t ts)
  show ?case
  proof (cases "s \<le> t \<and> w \<le> t - s")
    case True
    have "allowed_client mx w ts (Some (t, 1)) \<le> unat mx - unat (1 :: u32)"
      by (rule allowed_within_window) (use Cons.prems in auto)
    with True Cons.prems(4) show ?thesis by auto
  next
    case False
    have u: "unat (c + 1) = unat c + 1" using Cons.prems(3) by (intro unat_add_1) simp
    have "allowed_client mx w ts (Some (s, c + 1)) \<le> (unat mx - unat (c + 1)) + unat mx"
      by (rule Cons.IH) (use Cons.prems u in auto)
    moreover have "c + 1 \<le> mx \<longleftrightarrow> unat c + 1 \<le> unat mx" by (simp add: word_le_nat_alt u)
    ultimately show ?thesis using False u by auto
  qed
qed simp

text \<open>A fresh client is allowed exactly its first calls, up to the limit.\<close>

lemma allowed_exact:
  "\<forall>t \<in> set ts. t < s + w \<Longrightarrow> unat c + length ts < 2 ^ 32 \<Longrightarrow>
     allowed_client mx w ts (Some (s, c)) = min (length ts) (unat mx - unat c)"
proof (induction ts arbitrary: c)
  case (Cons t ts)
  then have tick: "tick w t (Some (s, c)) = (s, c + 1)" by auto
  have u: "unat (c + 1) = unat c + 1" using Cons.prems(2) by (intro unat_add_1) simp
  have "allowed_client mx w ts (Some (s, c + 1)) = min (length ts) (unat mx - unat (c + 1))"
    by (rule Cons.IH) (use Cons.prems u in auto)
  moreover have "c + 1 \<le> mx \<longleftrightarrow> unat c + 1 \<le> unat mx" by (simp add: word_le_nat_alt u)
  ultimately show ?case using tick u by auto
qed simp

lemma client_cleanup:
  "wf_map (clients lim) \<Longrightarrow> client (cleanup now lim) ip
     = (case client lim ip of None \<Rightarrow> None | Some (s, c) \<Rightarrow> (if now - s < window_len lim then Some (s, c) else None))"
  by (auto simp: client_def cleanup_def map_of_dm_retain split: option.splits)

lemma wf_allow: "wf_map (clients lim) \<Longrightarrow> wf_map (clients (snd (allow now ip lim)))"
  by (simp add: allow_def Let_def wf_dm_insert)

text \<open>A window that \<^verbatim>\<open>cleanup\<close> drops would have been restarted by the next call.\<close>

lemma tick_dropped: "\<not> now - s < w \<Longrightarrow> s \<le> now \<Longrightarrow> now \<le> now' \<Longrightarrow> tick w now' (Some (s, c)) = tick w now' None"
  by auto


section \<open>Properties\<close>

text \<open>
  C15: in any stretch of time as long as the window, a client is allowed at most twice the limit,
  whatever its history (a fixed window lets two bursts meet), as long as its counter does not
  reach \<open>2 ^ 32\<close>.
\<close>

theorem limiter_burst_bound:
  assumes "max_per_window lim \<noteq> 0" and "sorted ts" and "\<forall>t \<in> set ts. a \<le> t \<and> t < a + window_len lim"
    and "(case client lim ip of None \<Rightarrow> 0 | Some (_, c) \<Rightarrow> unat c) + length ts < 2 ^ 32"
  shows "allowed ts ip lim \<le> 2 * unat (max_per_window lim)"
proof (cases "client lim ip")
  case (Some sc)
  obtain s c where sc: "sc = (s, c)" by fastforce
  have "1 \<le> unat (max_per_window lim)" using assms(1) by (simp add: unat_gt_0 Suc_leI)
  from allowed_burst [OF assms(2,3) _ this, of c s] assms(4) Some sc
  have "allowed_client (max_per_window lim) (window_len lim) ts (Some (s, c))
      \<le> (unat (max_per_window lim) - unat c) + unat (max_per_window lim)" by simp
  then show ?thesis using Some sc by (simp add: allowed_eq [OF assms(1)])
next
  case None
  show ?thesis
  proof (cases ts)
    case (Cons t us)
    have "allowed_client (max_per_window lim) (window_len lim) us (Some (t, 1))
        \<le> unat (max_per_window lim) - unat (1 :: u32)"
      by (rule allowed_within_window) (use assms Cons None in auto)
    moreover have "1 \<le> unat (max_per_window lim)" using assms(1) by (simp add: unat_gt_0 Suc_leI)
    ultimately show ?thesis using None Cons by (auto simp: allowed_eq [OF assms(1)])
  qed simp
qed

theorem limiter_burst_bound_witness:
  "allowed [9, 9, 9, 10, 10, 10] (V4 1) (snd (allow 0 (V4 1) (limiter_new 2 10))) \<le> 4"
proof -
  let ?lim = "snd (allow 0 (V4 1) (limiter_new 2 10))"
  have 1: "max_per_window ?lim = 2" "window_len ?lim = 10" by code_simp+
  have 2: "client ?lim (V4 1) = Some (0, 1)" by code_simp
  from limiter_burst_bound [of ?lim "[9, 9, 9, 10, 10, 10]" 9 "V4 1"] show ?thesis by (simp add: 1 2)
qed

text \<open>
  The first calls of a client inside one window are allowed, exactly up to the limit, and the
  calls of a client change nothing for any other client.
\<close>

theorem limiter_exact:
  assumes "max_per_window lim \<noteq> 0" and "client lim ip = None" and "\<forall>t' \<in> set ts. t' < t + window_len lim"
    and "Suc (length ts) < 2 ^ 32"
  shows "allowed (t # ts) ip lim = min (Suc (length ts)) (unat (max_per_window lim)) \<and>
    (ip' = ip \<or> client (snd (allow t ip lim)) ip' = client lim ip')"
proof
  have "allowed_client (max_per_window lim) (window_len lim) ts (Some (t, 1))
      = min (length ts) (unat (max_per_window lim) - unat (1 :: u32))"
    by (rule allowed_exact) (use assms in auto)
  moreover have "1 \<le> unat (max_per_window lim)" using assms(1) by (simp add: unat_gt_0 Suc_leI)
  moreover from this have "1 \<le> max_per_window lim" by (simp add: word_le_nat_alt)
  ultimately show "allowed (t # ts) ip lim = min (Suc (length ts)) (unat (max_per_window lim))"
    using assms(2) by (simp only: allowed_eq [OF assms(1)]) auto
  show "ip' = ip \<or> client (snd (allow t ip lim)) ip' = client lim ip'"
    using allow_client(3) [OF assms(1)] by blast
qed

theorem limiter_exact_witness:
  "allowed [5, 6, 7, 8] (V4 1) (limiter_new 3 60) = 3"
  using limiter_exact [of "limiter_new 3 60" "V4 1" "[6, 7, 8]" 5]
  by (simp add: limiter_new_def client_def)

text \<open>
  C25: \<^verbatim>\<open>cleanup\<close> frees memory without changing behaviour: at any later time it makes no
  difference to whether a query is allowed, nor to the window the client then has.
\<close>

theorem limiter_cleanup_transparent:
  assumes "wf_map (clients lim)" and "now \<le> now'"
    and "case client lim ip of None \<Rightarrow> True | Some (s, _) \<Rightarrow> s \<le> now"
  shows "fst (allow now' ip (cleanup now lim)) = fst (allow now' ip lim) \<and>
    (max_per_window lim = 0 \<or>
     client (snd (allow now' ip (cleanup now lim))) ip = client (snd (allow now' ip lim)) ip)"
proof (cases "max_per_window lim = 0")
  case True
  then show ?thesis by (simp add: allow_def cleanup_def)
next
  case False
  have "max_per_window (cleanup now lim) \<noteq> 0" "window_len (cleanup now lim) = window_len lim"
    "max_per_window (cleanup now lim) = max_per_window lim"
    using False by (simp_all add: cleanup_def)
  moreover have "tick (window_len lim) now' (client (cleanup now lim) ip) = tick (window_len lim) now' (client lim ip)"
    using assms tick_dropped [OF _ _ assms(2)]
    by (auto simp: client_cleanup split: option.splits simp del: tick.simps)
  ultimately show ?thesis using allow_client [OF False] allow_client [of "cleanup now lim"] by simp
qed

theorem limiter_cleanup_transparent_witness:
  "fst (allow 30 (V4 1) (cleanup 20 (snd (allow 0 (V4 1) (limiter_new 1 10)))))
     = fst (allow 30 (V4 1) (snd (allow 0 (V4 1) (limiter_new 1 10))))"
proof -
  let ?lim = "snd (allow 0 (V4 1) (limiter_new 1 10))"
  have "wf_map (clients ?lim)" "client ?lim (V4 1) = Some (0, 1)" by code_simp+
  with limiter_cleanup_transparent [of ?lim 20 30 "V4 1"] show ?thesis by simp
qed

end
