(* ===== verification/Acl.thy ===== *)
theory Acl
  imports Std_Parse
begin

text \<open>
  The access control list for zone transfers, \<^verbatim>\<open>src/acl.rs\<close>: parsing of CIDR entries and the test
  of a client address.  The comparison of whole bytes and of the masked last byte indexes fixed
  arrays, so a prefix that is too long would be a panic; parsing admits none.
\<close>

datatype cidr =
    Cidr4 bytes u8
      \<comment> \<open>addr, prefix\<close>
  | Cidr6 bytes u8

record acl =
  acl_entries :: "cidr list"

text \<open>The errors of \<^verbatim>\<open>parse_cidr\<close>, in the order of the code.\<close>

datatype acl_error = InvalidPrefix | PrefixTooLong u8 | NotAnAddress string

definition parse_cidr :: "string \<Rightarrow> (acl_error, cidr) outcome" where
  "parse_cidr s =
     (case split_once CHR ''/'' s of
        Some (addr_part, prefix_part) \<Rightarrow>
          (case parse_u8 prefix_part of
             None \<Rightarrow> Err InvalidPrefix
           | Some plen \<Rightarrow>
               (case parse_ipv4 addr_part of
                  Some v4 \<Rightarrow> (if 32 < plen then Err (PrefixTooLong plen) else Ok (Cidr4 (octets4 v4) plen))
                | None \<Rightarrow>
                    (case parse_ipv6 addr_part of
                       Some v6 \<Rightarrow>
                         (if 128 < plen then Err (PrefixTooLong plen) else Ok (Cidr6 (octets6 v6) plen))
                     | None \<Rightarrow> Err (NotAnAddress addr_part))))
      | None \<Rightarrow>
          (case parse_ipv4 s of
             Some v4 \<Rightarrow> Ok (Cidr4 (octets4 v4) 32)
           | None \<Rightarrow>
               (case parse_ipv6 s of
                  Some v6 \<Rightarrow> Ok (Cidr6 (octets6 v6) 128)
                | None \<Rightarrow> Err (NotAnAddress s))))"

fun acl_parse_entries :: "string list \<Rightarrow> (acl_error, cidr list) outcome" where
  "acl_parse_entries [] = Ok []"
| "acl_parse_entries (spec # specs) =
     (let s = trim spec in
      if s = [] then acl_parse_entries specs
      else obind (parse_cidr s) (\<lambda>c. obind (acl_parse_entries specs) (\<lambda>cs. Ok (c # cs))))"

definition acl_parse :: "string list \<Rightarrow> (acl_error, acl) outcome" where
  "acl_parse specs = obind (acl_parse_entries specs) (\<lambda>cs. Ok \<lparr>acl_entries = cs\<rparr>)"

definition deny_all :: acl where
  "deny_all = \<lparr>acl_entries = []\<rparr>"

text \<open>
  \<^verbatim>\<open>matches_v4\<close> and \<^verbatim>\<open>matches_v6\<close> have the same body on arrays of 4 and of 16 bytes.
\<close>

definition matches_bytes :: "bytes \<Rightarrow> u8 \<Rightarrow> bytes \<Rightarrow> (acl_error, bool) outcome" where
  "matches_bytes net plen ip =
     (let bits = unat plen; full_bytes = bits div 8; rem = bits mod 8 in
      obind (slice ip 0 full_bytes) (\<lambda>a.
      obind (slice net 0 full_bytes) (\<lambda>b.
        if a \<noteq> b then Ok False
        else if rem = 0 then Ok True
        else
          let mask = push_bit (8 - rem) (0xFF :: u8) in
          obind (read_u8 ip full_bytes) (\<lambda>x.
          obind (read_u8 net full_bytes) (\<lambda>y. Ok (x AND mask = y AND mask))))))"

definition matches_v4 :: "bytes \<Rightarrow> u8 \<Rightarrow> bytes \<Rightarrow> (acl_error, bool) outcome" where
  "matches_v4 net plen ip = matches_bytes net plen ip"

definition matches_v6 :: "bytes \<Rightarrow> u8 \<Rightarrow> bytes \<Rightarrow> (acl_error, bool) outcome" where
  "matches_v6 net plen ip = matches_bytes net plen ip"

fun entry_matches :: "cidr \<Rightarrow> ip_addr \<Rightarrow> (acl_error, bool) outcome" where
  "entry_matches (Cidr4 addr plen) (V4 v4) = matches_v4 addr plen (octets4 v4)"
| "entry_matches (Cidr6 addr plen) (V6 v6) = matches_v6 addr plen (octets6 v6)"
| "entry_matches _ _ = Ok False"

fun any_matches :: "cidr list \<Rightarrow> ip_addr \<Rightarrow> (acl_error, bool) outcome" where
  "any_matches [] ip = Ok False"
| "any_matches (c # cs) ip = obind (entry_matches c ip) (\<lambda>m. if m then Ok True else any_matches cs ip)"

definition is_allowed :: "acl \<Rightarrow> ip_addr \<Rightarrow> (acl_error, bool) outcome" where
  "is_allowed a ip = any_matches (acl_entries a) ip"


section \<open>The bytes of an address\<close>

lemma nth_be_bytes: "k < n \<Longrightarrow> be_bytes n w ! k = ucast (drop_bit (8 * (n - 1 - k)) w)"
proof (induction n arbitrary: w)
  case (Suc n)
  show ?case
  proof (cases "k < n")
    case True
    then have "8 * (n - 1 - k) + 8 = 8 * (n - k)" by (simp add: diff_mult_distrib2 algebra_simps)
    with True Suc.IH [OF True, of "drop_bit 8 w"] show ?thesis
      by (simp add: nth_append)
  next
    case False
    with Suc.prems have "k = n" by simp
    then show ?thesis by (simp add: nth_append)
  qed
qed simp

lemma drop_bit_eq_iff: "drop_bit k a = drop_bit k (b :: 'a::len word) \<longleftrightarrow> (\<forall>i \<ge> k. bit a i = bit b i)"
proof
  assume eq: "drop_bit k a = drop_bit k b"
  show "\<forall>i \<ge> k. bit a i = bit b i"
  proof (intro allI impI)
    fix i
    assume "k \<le> i"
    then show "bit a i = bit b i"
      using arg_cong [OF eq, of "\<lambda>w. bit w (i - k)"] by (simp add: bit_simps)
  qed
qed (auto intro: bit_word_eqI simp: bit_simps)

lemma byte_mask_eq_iff:
  assumes "0 < rem" and "rem < 8"
  shows "ucast (drop_bit k a) AND push_bit (8 - rem) (0xFF :: u8) = ucast (drop_bit k (b :: 'a::len word)) AND push_bit (8 - rem) 0xFF
    \<longleftrightarrow> (\<forall>j. 8 - rem \<le> j \<and> j < 8 \<longrightarrow> bit a (k + j) = bit b (k + j))"
proof -
  have ones: "(0xFF :: u8) = mask 8" by (simp add: mask_eq_exp_minus_1)
  show ?thesis unfolding ones
    by (auto simp: bit_eq_iff bit_simps)
qed

lemma take_be_bytes_eq_iff:
  assumes "m \<le> n" and "LENGTH('a::len) = 8 * n"
  shows "take m (be_bytes n (a :: 'a word)) = take m (be_bytes n (b :: 'a word)) \<longleftrightarrow>
    (\<forall>i \<ge> 8 * (n - m). bit a i = bit b i)"
proof
  assume eq: "take m (be_bytes n a) = take m (be_bytes n b)"
  show "\<forall>i \<ge> 8 * (n - m). bit a i = bit b i"
  proof (intro allI impI)
    fix i
    assume i: "8 * (n - m) \<le> i"
    show "bit a i = bit b i"
    proof (cases "i < 8 * n")
      case True
      let ?k = "n - 1 - i div 8"
      have k: "?k < m" "?k < n" "n - 1 - ?k = i div 8" using i True assms(1) by auto
      have "be_bytes n a ! ?k = be_bytes n b ! ?k"
        using arg_cong [OF eq, of "\<lambda>xs. xs ! ?k"] k by simp
      then have "bit (ucast (drop_bit (8 * (i div 8)) a) :: u8) (i mod 8)
          = bit (ucast (drop_bit (8 * (i div 8)) b) :: u8) (i mod 8)"
        using k by (simp add: nth_be_bytes)
      then show ?thesis by (simp add: bit_simps)
    next
      case False
      then show ?thesis using assms(2) bit_imp_le_length [of a i] bit_imp_le_length [of b i] by auto
    qed
  qed
next
  assume bits: "\<forall>i \<ge> 8 * (n - m). bit a i = bit b i"
  show "take m (be_bytes n a) = take m (be_bytes n b)"
  proof (rule nth_equalityI)
    fix k
    assume "k < length (take m (be_bytes n a))"
    then have k: "k < m" "k < n" using assms(1) by auto
    have "8 * (n - m) \<le> 8 * (n - 1 - k) + j" for j using k by auto
    then have "ucast (drop_bit (8 * (n - 1 - k)) a) = (ucast (drop_bit (8 * (n - 1 - k)) b) :: u8)"
      using bits by (intro bit_word_eqI) (simp add: bit_simps)
    then show "take m (be_bytes n a) ! k = take m (be_bytes n b) ! k"
      using k by (simp add: nth_be_bytes)
  qed simp
qed

lemma split_range:
  assumes "r < 8"
  shows "(\<forall>i \<ge> k + 8 - r. P i) \<longleftrightarrow> (\<forall>i \<ge> k + 8. P i) \<and> (\<forall>j. 8 - r \<le> j \<and> j < (8 :: nat) \<longrightarrow> P (k + j))"
    (is "?A \<longleftrightarrow> ?B \<and> ?C")
proof
  assume a: ?A
  then show "?B \<and> ?C" by auto
next
  assume bc: "?B \<and> ?C"
  show ?A
  proof (intro allI impI)
    fix i
    assume i: "k + 8 - r \<le> i"
    show "P i"
    proof (cases "k + 8 \<le> i")
      case False
      then have "8 - r \<le> i - k" "i - k < 8" "k + (i - k) = i" using i assms by linarith+
      with bc show ?thesis by metis
    qed (use bc in blast)
  qed
qed

text \<open>Bytewise matching compares the leading bits.\<close>

lemma matches_bytes_leading_bits:
  assumes "unat p \<le> 8 * n" and "LENGTH('a::len) = 8 * n"
  shows "matches_bytes (be_bytes n a) p (be_bytes n b)
    = Ok (drop_bit (8 * n - unat p) b = drop_bit (8 * n - unat p) (a :: 'a word))"
proof -
  let ?m = "unat p div 8" and ?r = "unat p mod 8"
  have m: "?m \<le> n" using assms(1) by auto
  have start: "8 * n - unat p = 8 * (n - ?m) - ?r" using m assms(1) by (auto simp: diff_mult_distrib2)
  have whole: "take ?m (be_bytes n b) = take ?m (be_bytes n a) \<longleftrightarrow> (\<forall>i \<ge> 8 * (n - ?m). bit b i = bit a i)"
    by (rule take_be_bytes_eq_iff [OF m assms(2)])
  show ?thesis
  proof (cases "?r = 0")
    case True
    with whole start m show ?thesis
      by (auto simp: matches_bytes_def Let_def slice_def drop_bit_eq_iff)
  next
    case False
    then have r: "0 < ?r" "?r < 8" by auto
    have "8 * ?m < unat p" using r(1) mult_div_mod_eq [of 8 "unat p"] by linarith
    then have lt: "?m < n" using assms(1) by linarith
    let ?k = "8 * (n - 1 - ?m)"
    have k: "8 * (n - ?m) = ?k + 8" using lt by auto
    have mask: "be_bytes n b ! ?m AND push_bit (8 - ?r) (0xFF :: u8) = be_bytes n a ! ?m AND push_bit (8 - ?r) 0xFF
        \<longleftrightarrow> (\<forall>j. 8 - ?r \<le> j \<and> j < 8 \<longrightarrow> bit b (?k + j) = bit a (?k + j))"
      using lt by (simp only: nth_be_bytes byte_mask_eq_iff [OF r])
    have "(\<forall>i \<ge> ?k + 8 - ?r. bit b i = bit a i) \<longleftrightarrow>
        (\<forall>i \<ge> ?k + 8. bit b i = bit a i) \<and> (\<forall>j. 8 - ?r \<le> j \<and> j < 8 \<longrightarrow> bit b (?k + j) = bit a (?k + j))"
      by (rule split_range [OF r(2)])
    then show ?thesis
      using whole mask start False lt
      by (auto simp: matches_bytes_def Let_def slice_def read_u8_def drop_bit_eq_iff k)
  qed
qed

section \<open>Well-formed lists\<close>

fun wf_cidr :: "cidr \<Rightarrow> bool" where
  "wf_cidr (Cidr4 addr p) \<longleftrightarrow> length addr = 4 \<and> p \<le> 32"
| "wf_cidr (Cidr6 addr p) \<longleftrightarrow> length addr = 16 \<and> p \<le> 128"

lemma parse_cidr_wf: "parse_cidr s = Ok c \<Longrightarrow> wf_cidr c"
  by (auto simp: parse_cidr_def not_less split: option.splits if_splits)

lemma acl_parse_entries_wf: "acl_parse_entries specs = Ok cs \<Longrightarrow> list_all wf_cidr cs"
proof (induction specs arbitrary: cs)
  case (Cons spec specs)
  then show ?case by (auto simp: Let_def split: if_splits dest: parse_cidr_wf)
qed simp

lemma acl_parse_wf: "acl_parse specs = Ok a \<Longrightarrow> list_all wf_cidr (acl_entries a)"
  by (auto simp: acl_parse_def dest: acl_parse_entries_wf)

text \<open>The meaning of an entry: the leading bits of the address.\<close>

fun in_network :: "ip_addr \<Rightarrow> cidr \<Rightarrow> bool" where
  "in_network (V4 ip) (Cidr4 addr p) \<longleftrightarrow>
     drop_bit (32 - unat p) ip = drop_bit (32 - unat p) (be_word addr :: ipv4)"
| "in_network (V6 ip) (Cidr6 addr p) \<longleftrightarrow>
     drop_bit (128 - unat p) ip = drop_bit (128 - unat p) (be_word addr :: ipv6)"
| "in_network _ _ \<longleftrightarrow> False"

lemma matches_network:
  fixes a :: "'a::len word"
  assumes "length addr = n" and "LENGTH('a) = 8 * n" and "unat p \<le> 8 * n"
  shows "matches_bytes addr p (be_bytes n a)
    = Ok (drop_bit (8 * n - unat p) a = drop_bit (8 * n - unat p) (be_word addr))"
proof -
  have "be_bytes n (be_word addr :: 'a word) = addr"
    using be_bytes_be_word [of addr, where 'a = 'a] assms(1,2) by simp
  then show ?thesis using matches_bytes_leading_bits [OF assms(3,2), of "be_word addr" a] by simp
qed

lemma entry_matches_wf: "wf_cidr c \<Longrightarrow> entry_matches c ip = Ok (in_network ip c)"
proof (induction c ip rule: entry_matches.induct)
  case (1 addr p v4)
  then have "unat p \<le> 8 * 4" by (simp add: word_le_nat_alt)
  with 1 matches_network [of addr 4 p v4] show ?case by (simp add: matches_v4_def)
next
  case (2 addr p v6)
  then have "unat p \<le> 8 * 16" by (simp add: word_le_nat_alt)
  with 2 matches_network [of addr 16 p v6] show ?case by (simp add: matches_v6_def)
qed simp_all

lemma any_matches_wf: "list_all wf_cidr cs \<Longrightarrow> any_matches cs ip = Ok (list_ex (in_network ip) cs)"
  by (induction cs) (auto simp: entry_matches_wf)


section \<open>Properties\<close>

text \<open>
  C16: a client is allowed exactly when its address is in one of the configured networks, where
  being in a network is agreement on the leading bits; the test of a parsed list never panics.
\<close>

theorem acl_is_allowed_iff:
  assumes "acl_parse specs = Ok a"
  shows "is_allowed a ip = Ok (\<exists>c \<in> set (acl_entries a). in_network ip c)"
  using any_matches_wf [OF acl_parse_wf [OF assms]] by (simp add: is_allowed_def list_ex_iff)

definition sample_acl :: acl where
  "sample_acl = \<lparr>acl_entries = [Cidr4 [10, 0, 0, 0] 9]\<rparr>"

theorem acl_is_allowed_iff_witness:
  "acl_parse ['' 10.0.0.0/9''] = Ok sample_acl \<and>
   is_allowed sample_acl (V4 0x0A7F0001) = Ok True \<and> is_allowed sample_acl (V4 0x0A800001) = Ok False"
proof -
  have p: "acl_parse ['' 10.0.0.0/9''] = Ok sample_acl" by code_simp
  have "(\<exists>c \<in> set (acl_entries sample_acl). in_network (V4 0x0A7F0001) c)"
    "\<not> (\<exists>c \<in> set (acl_entries sample_acl). in_network (V4 0x0A800001) c)" by code_simp+
  with p acl_is_allowed_iff [OF p] show ?thesis by simp
qed

text \<open>
  A list with an entry that is no address, or whose prefix is not a number or too long, is
  refused as a whole; and an empty list denies every client.
\<close>

theorem acl_parse_refuses:
  assumes "spec \<in> set specs" and "trim spec \<noteq> []" and "parse_cidr (trim spec) = Err e"
  shows "(\<exists>e'. acl_parse specs = Err e') \<and> is_allowed deny_all ip = Ok False"
proof -
  have total: "parse_cidr s \<noteq> Panic" for s by (simp add: parse_cidr_def split: option.splits)
  have "\<exists>e'. acl_parse_entries specs = Err e'"
    using assms
  proof (induction specs)
    case (Cons s specs)
    show ?case
    proof (cases "s = spec")
      case True
      then show ?thesis using Cons.prems by (simp add: Let_def)
    next
      case False
      with Cons obtain e' where "acl_parse_entries specs = Err e'" by auto
      with total [of "trim s"] show ?thesis by (cases "parse_cidr (trim s)") (auto simp: Let_def)
    qed
  qed simp
  then show ?thesis by (auto simp: acl_parse_def is_allowed_def deny_all_def)
qed

theorem acl_parse_refuses_witness:
  "(\<exists>e. acl_parse [''10.0.0.0/33''] = Err e) \<and> is_allowed deny_all (V4 1) = Ok False"
proof -
  have "trim ''10.0.0.0/33'' \<noteq> []" "parse_cidr (trim ''10.0.0.0/33'') = Err (PrefixTooLong 33)" by code_simp+
  from acl_parse_refuses [OF _ this, of "[''10.0.0.0/33'']" "V4 1"] show ?thesis by simp
qed

end
