(* ===== verification/Blocklist.thy ===== *)
theory Blocklist
  imports Std_Parse Resolver
begin

text \<open>
  The domain blocklist of \<^verbatim>\<open>src/blocklist.rs\<close>: the parser of a blocklist file, the test of a name
  and the reload.  Reading a file is the parameter \<open>read_file\<close>, which gives the content or fails.
\<close>

record blocklist =
  entries :: "string set"
  path :: "string option"

type_synonym file_reader = "string \<Rightarrow> string option"

definition is_ascii_alphanumeric :: "char \<Rightarrow> bool" where
  "is_ascii_alphanumeric c \<longleftrightarrow>
     (let b = (of_char c :: nat) in 48 \<le> b \<and> b \<le> 57 \<or> 65 \<le> b \<and> b \<le> 90 \<or> 97 \<le> b \<and> b \<le> 122)"

definition valid_label :: "string \<Rightarrow> bool" where
  "valid_label label =
     (if label = [] then False
      else
        let check = (case label of CHR ''*'' # rest \<Rightarrow> rest | _ \<Rightarrow> label) in
        check = [] \<or> list_all (\<lambda>c. is_ascii_alphanumeric c \<or> c = CHR ''-'') check)"

definition is_valid_domain :: "string \<Rightarrow> bool" where
  "is_valid_domain dm \<longleftrightarrow> dm \<noteq> [] \<and> list_all valid_label (split_on CHR ''.'' dm)"

text \<open>One line of the file: the domain it adds, if any.\<close>

definition blocklist_line :: "string \<Rightarrow> string option" where
  "blocklist_line raw =
     (let line = trim raw in
      if line = [] \<or> hd line = CHR '';'' \<or> hd line = CHR ''#'' then None
      else
        let dm = to_lowercase line in
        if dm = [] then None else if \<not> is_valid_domain dm then None else Some dm)"

definition parse_blocklist :: "string \<Rightarrow> string set" where
  "parse_blocklist content =
     fold (\<lambda>line s. case blocklist_line line of Some dm \<Rightarrow> insert dm s | None \<Rightarrow> s) (lines content) {}"

definition load_blocklist_file :: "file_reader \<Rightarrow> string \<Rightarrow> string set option" where
  "load_blocklist_file read_file p = map_option parse_blocklist (read_file p)"

definition blocklist_empty :: blocklist where
  "blocklist_empty = \<lparr>entries = {}, path = None\<rparr>"

definition blocklist_from_file :: "file_reader \<Rightarrow> string \<Rightarrow> blocklist option" where
  "blocklist_from_file read_file p =
     map_option (\<lambda>s. \<lparr>entries = s, path = Some p\<rparr>) (load_blocklist_file read_file p)"

definition blocklist_from_domains :: "string list \<Rightarrow> blocklist" where
  "blocklist_from_domains ds = \<lparr>entries = set (map to_lowercase ds), path = None\<rparr>"

definition is_active :: "blocklist \<Rightarrow> bool" where
  "is_active bl \<longleftrightarrow> entries bl \<noteq> {}"

function blocked_parent :: "string set \<Rightarrow> string \<Rightarrow> bool" where
  "blocked_parent es remainder =
     (case after_dot remainder of
        None \<Rightarrow> False
      | Some r \<Rightarrow> (if ''*.'' @ r \<in> es then True else blocked_parent es r))"
  by pat_completeness auto
termination
  by (relation "measure (\<lambda>(es, s). length s)") (auto dest: after_dot_length)

declare blocked_parent.simps [simp del]

definition is_blocked :: "blocklist \<Rightarrow> string \<Rightarrow> bool" where
  "is_blocked bl name =
     (let n = to_lowercase name in
      if n \<in> entries bl then True else blocked_parent (entries bl) n)"

text \<open>\<^verbatim>\<open>reload\<close>: whether it succeeded, and the list afterwards.\<close>

definition blocklist_reload :: "file_reader \<Rightarrow> blocklist \<Rightarrow> bool \<times> blocklist" where
  "blocklist_reload read_file bl =
     (case path bl of
        None \<Rightarrow> (True, bl)
      | Some p \<Rightarrow>
          (case load_blocklist_file read_file p of
             None \<Rightarrow> (False, bl)
           | Some s \<Rightarrow> (True, bl\<lparr>entries := s\<rparr>)))"


section \<open>Lemmas\<close>

text \<open>The walk over the parents is the one of the zone lookup, on set membership.\<close>

definition probe_set :: "string set \<Rightarrow> string \<Rightarrow> unit option" where
  "probe_set es s = (if s \<in> es then Some () else None)"

definition walk_set :: "string set \<Rightarrow> string \<Rightarrow> unit option" where
  "walk_set es s = (if blocked_parent es s then Some () else None)"

interpretation bw: wildcard_walk "probe_set es" "walk_set es"
proof
  fix s
  show "walk_set es s = (case after_dot s of None \<Rightarrow> None
     | Some r \<Rightarrow> (case probe_set es (''*.'' @ r) of Some v \<Rightarrow> Some v | None \<Rightarrow> walk_set es r))"
    by (auto simp: walk_set_def probe_set_def blocked_parent.simps [of es s] split: option.splits)
qed

lemma blocked_parent_iff: "blocked_parent es s \<longleftrightarrow> (\<exists>t. below s t \<and> ''*.'' @ t \<in> es)"
  using bw.walk_None [of es s] by (auto simp: walk_set_def probe_set_def split: if_splits)

lemma parse_blocklist_iff:
  "dm \<in> parse_blocklist content \<longleftrightarrow> (\<exists>l \<in> set (lines content). blocklist_line l = Some dm)"
proof -
  have "dm \<in> fold (\<lambda>line s. case blocklist_line line of Some x \<Rightarrow> insert x s | None \<Rightarrow> s) ls s0 \<longleftrightarrow>
      dm \<in> s0 \<or> (\<exists>l \<in> set ls. blocklist_line l = Some dm)" for ls s0
    by (induction ls arbitrary: s0) (auto split: option.splits)
  then show ?thesis by (simp add: parse_blocklist_def)
qed

lemma blocklist_line_valid: "blocklist_line l = Some dm \<Longrightarrow> is_valid_domain dm"
  by (auto simp: blocklist_line_def Let_def split: if_splits)


section \<open>Properties\<close>

text \<open>
  C26: a name is blocked exactly when, in lowercase, it is listed, or lies strictly below some
  \<open>t\<close> for which \<open>*.t\<close> is listed; so a wildcard entry blocks every descendant, at any depth, and
  not the domain itself.
\<close>

theorem is_blocked_iff:
  "is_blocked bl name \<longleftrightarrow>
     to_lowercase name \<in> entries bl \<or> (\<exists>t. below (to_lowercase name) t \<and> ''*.'' @ t \<in> entries bl)"
  by (simp add: is_blocked_def Let_def blocked_parent_iff)

text \<open>
  Reloading replaces the list by exactly the domains of the lines of the file that are valid,
  and a file that cannot be read leaves the list as it was.
\<close>

theorem blocklist_reload_entries:
  "(case path bl of
      None \<Rightarrow> blocklist_reload read_file bl = (True, bl)
    | Some p \<Rightarrow>
        (case read_file p of
           None \<Rightarrow> blocklist_reload read_file bl = (False, bl)
         | Some content \<Rightarrow>
             fst (blocklist_reload read_file bl) \<and> path (snd (blocklist_reload read_file bl)) = Some p \<and>
             entries (snd (blocklist_reload read_file bl))
               = {dm. \<exists>l \<in> set (lines content). blocklist_line l = Some dm}))"
  by (auto simp: blocklist_reload_def load_blocklist_file_def parse_blocklist_iff split: option.splits)

text \<open>
  The check of a domain is weaker than its comment: it admits an asterisk at the start of any
  label, not only as the first label, and as part of a longer label.
\<close>

theorem is_valid_domain_admits_inner_wildcard:
  "is_valid_domain ''a.*.b'' \<and> is_valid_domain ''a.*c'' \<and> \<not> is_valid_domain ''a..b'' \<and> \<not> is_valid_domain ''a.b.''"
  by code_simp

end
