(* ===== verification/Metrics.thy ===== *)
theory Metrics
  imports Std_Parse
begin

text \<open>
  The counters of \<^verbatim>\<open>src/metrics.rs\<close>: every counter is spread over shards, a thread increments
  the shard it was given, a reader sums the shards.  The shard of the running thread is an
  argument \<open>i\<close> of the operations; \<^verbatim>\<open>shard_index\<close> hands them out round-robin modulo \<open>SHARDS\<close>, so
  it is below \<open>SHARDS\<close>.  The theory shows that the sharded counters implement plain ones, and
  that the exposition text reports their values.
\<close>

type_synonym u64 = "64 word"

definition SHARDS :: nat where "SHARDS = 32"

record counters =
  n_total :: u64
  n_authoritative :: u64
  n_cache_hits :: u64
  n_forwarded :: u64
  n_coalesced :: u64
  n_rate_limited :: u64
  n_blocked :: u64
  n_errors :: u64

type_synonym metrics = "counters list"

definition counters_default :: counters where
  "counters_default = \<lparr>n_total = 0, n_authoritative = 0, n_cache_hits = 0, n_forwarded = 0,
     n_coalesced = 0, n_rate_limited = 0, n_blocked = 0, n_errors = 0\<rparr>"

definition metrics_default :: metrics where
  "metrics_default = replicate SHARDS counters_default"

text \<open>
  The index the \<open>k\<close>-th thread to ask for one is given.  \<^verbatim>\<open>bump\<close> is given the update of the
  counter it increments; \<^verbatim>\<open>sum\<close> the counter it reads.
\<close>

definition shard_index :: "nat \<Rightarrow> nat" where
  "shard_index k = k mod SHARDS"

definition bump :: "((u64 \<Rightarrow> u64) \<Rightarrow> counters \<Rightarrow> counters) \<Rightarrow> nat \<Rightarrow> metrics \<Rightarrow> metrics" where
  "bump select i m = m[i := select (\<lambda>n. n + 1) (m ! i)]"

definition sum_shards :: "(counters \<Rightarrow> u64) \<Rightarrow> metrics \<Rightarrow> u64" where
  "sum_shards select m = sum_list (map select m)"

definition inc_total :: "nat \<Rightarrow> metrics \<Rightarrow> metrics" where "inc_total = bump n_total_update"
definition inc_authoritative :: "nat \<Rightarrow> metrics \<Rightarrow> metrics" where "inc_authoritative = bump n_authoritative_update"
definition inc_cache_hit :: "nat \<Rightarrow> metrics \<Rightarrow> metrics" where "inc_cache_hit = bump n_cache_hits_update"
definition inc_forwarded :: "nat \<Rightarrow> metrics \<Rightarrow> metrics" where "inc_forwarded = bump n_forwarded_update"
definition inc_coalesced :: "nat \<Rightarrow> metrics \<Rightarrow> metrics" where "inc_coalesced = bump n_coalesced_update"
definition inc_rate_limited :: "nat \<Rightarrow> metrics \<Rightarrow> metrics" where "inc_rate_limited = bump n_rate_limited_update"
definition inc_blocked :: "nat \<Rightarrow> metrics \<Rightarrow> metrics" where "inc_blocked = bump n_blocked_update"
definition inc_error :: "nat \<Rightarrow> metrics \<Rightarrow> metrics" where "inc_error = bump n_errors_update"

definition total :: "metrics \<Rightarrow> u64" where "total = sum_shards n_total"
definition authoritative_count :: "metrics \<Rightarrow> u64" where "authoritative_count = sum_shards n_authoritative"
definition cache_hits :: "metrics \<Rightarrow> u64" where "cache_hits = sum_shards n_cache_hits"
definition forwarded :: "metrics \<Rightarrow> u64" where "forwarded = sum_shards n_forwarded"
definition coalesced :: "metrics \<Rightarrow> u64" where "coalesced = sum_shards n_coalesced"
definition rate_limited :: "metrics \<Rightarrow> u64" where "rate_limited = sum_shards n_rate_limited"
definition blocked :: "metrics \<Rightarrow> u64" where "blocked = sum_shards n_blocked"
definition errors :: "metrics \<Rightarrow> u64" where "errors = sum_shards n_errors"

text \<open>The decimal text of a number, as \<^verbatim>\<open>format!\<close> prints it.\<close>

fun decimal :: "nat \<Rightarrow> string" where
  "decimal n = (if n < 10 then [char_of (48 + n)] else decimal (n div 10) @ [char_of (48 + n mod 10)])"

declare decimal.simps [simp del]

definition prometheus_line :: "string \<times> string \<times> u64 \<Rightarrow> string" where
  "prometheus_line = (\<lambda>(name, help, v).
     ''# HELP '' @ name @ '' '' @ help @ ''\<newline># TYPE '' @ name @ '' counter\<newline>'' @ name @ '' '' @ decimal (unat v) @ ''\<newline>'')"

definition prometheus_counters :: "metrics \<Rightarrow> (string \<times> string \<times> u64) list" where
  "prometheus_counters m =
     [(''mini_dns_queries_total'', ''Total queries received'', total m),
      (''mini_dns_authoritative_total'', ''Queries answered from the local zone'', authoritative_count m),
      (''mini_dns_cache_hits_total'', ''Queries answered from the cache'', cache_hits m),
      (''mini_dns_forwarded_total'', ''Queries forwarded upstream'', forwarded m),
      (''mini_dns_coalesced_total'', ''Queries coalesced by single-flight'', coalesced m),
      (''mini_dns_rate_limited_total'', ''Queries dropped by the rate limiter'', rate_limited m),
      (''mini_dns_blocked_total'', ''Queries blocked by the blocklist'', blocked m),
      (''mini_dns_errors_total'', ''Packets that failed to parse or forward'', errors m)]"

definition prometheus :: "metrics \<Rightarrow> string" where
  "prometheus m = concat (map prometheus_line (prometheus_counters m))"

definition summary :: "metrics \<Rightarrow> string" where
  "summary m = ''total='' @ decimal (unat (total m)) @ '' authoritative='' @ decimal (unat (authoritative_count m)) @
     '' cache_hits='' @ decimal (unat (cache_hits m)) @ '' forwarded='' @ decimal (unat (forwarded m)) @
     '' coalesced='' @ decimal (unat (coalesced m)) @ '' rate_limited='' @ decimal (unat (rate_limited m)) @
     '' blocked='' @ decimal (unat (blocked m)) @ '' errors='' @ decimal (unat (errors m))"


section \<open>Sharded counters implement plain ones\<close>

definition wf_metrics :: "metrics \<Rightarrow> bool" where
  "wf_metrics m \<longleftrightarrow> length m = SHARDS"

text \<open>What a reader sees of the counters.\<close>

definition seen :: "metrics \<Rightarrow> counters" where
  "seen m = \<lparr>n_total = total m, n_authoritative = authoritative_count m, n_cache_hits = cache_hits m,
     n_forwarded = forwarded m, n_coalesced = coalesced m, n_rate_limited = rate_limited m,
     n_blocked = blocked m, n_errors = errors m\<rparr>"

lemmas inc_defs = inc_total_def inc_authoritative_def inc_cache_hit_def inc_forwarded_def inc_coalesced_def
  inc_rate_limited_def inc_blocked_def inc_error_def

lemmas count_defs = total_def authoritative_count_def cache_hits_def forwarded_def coalesced_def
  rate_limited_def blocked_def errors_def

lemma wf_bump: "wf_metrics m \<Longrightarrow> wf_metrics (bump f i m)"
  by (simp add: wf_metrics_def bump_def)

lemma sum_update:
  "i < length xs \<Longrightarrow> sum_list (map f (xs[i := y])) = sum_list (map f xs) + (f y - f (xs ! i) :: u64)"
proof (induction xs arbitrary: i)
  case (Cons x xs)
  then show ?case by (cases i) (simp_all add: algebra_simps)
qed simp

lemma sum_bump:
  "wf_metrics m \<Longrightarrow> i < SHARDS \<Longrightarrow>
     sum_shards select (bump f i m) = sum_shards select m + (select (f (\<lambda>n. n + 1) (m ! i)) - select (m ! i))"
  by (simp add: sum_shards_def bump_def sum_update wf_metrics_def)

lemma seen_inc:
  assumes "wf_metrics m" and "i < SHARDS"
  shows "seen (inc_total i m) = (seen m)\<lparr>n_total := total m + 1\<rparr>"
    and "seen (inc_authoritative i m) = (seen m)\<lparr>n_authoritative := authoritative_count m + 1\<rparr>"
    and "seen (inc_cache_hit i m) = (seen m)\<lparr>n_cache_hits := cache_hits m + 1\<rparr>"
    and "seen (inc_forwarded i m) = (seen m)\<lparr>n_forwarded := forwarded m + 1\<rparr>"
    and "seen (inc_coalesced i m) = (seen m)\<lparr>n_coalesced := coalesced m + 1\<rparr>"
    and "seen (inc_rate_limited i m) = (seen m)\<lparr>n_rate_limited := rate_limited m + 1\<rparr>"
    and "seen (inc_blocked i m) = (seen m)\<lparr>n_blocked := blocked m + 1\<rparr>"
    and "seen (inc_error i m) = (seen m)\<lparr>n_errors := errors m + 1\<rparr>"
  using assms by (simp_all add: seen_def count_defs inc_defs sum_bump)

text \<open>The increments, by the counter they bump.\<close>

datatype event = Total | Authoritative | Cache_hit | Forwarded | Coalesced | Rate_limited | Blocked | Errored

fun inc_event :: "event \<Rightarrow> nat \<Rightarrow> metrics \<Rightarrow> metrics" where
  "inc_event Total = inc_total"
| "inc_event Authoritative = inc_authoritative"
| "inc_event Cache_hit = inc_cache_hit"
| "inc_event Forwarded = inc_forwarded"
| "inc_event Coalesced = inc_coalesced"
| "inc_event Rate_limited = inc_rate_limited"
| "inc_event Blocked = inc_blocked"
| "inc_event Errored = inc_error"

fun count_event :: "event \<Rightarrow> metrics \<Rightarrow> u64" where
  "count_event Total = total"
| "count_event Authoritative = authoritative_count"
| "count_event Cache_hit = cache_hits"
| "count_event Forwarded = forwarded"
| "count_event Coalesced = coalesced"
| "count_event Rate_limited = rate_limited"
| "count_event Blocked = blocked"
| "count_event Errored = errors"

lemma wf_inc_event: "wf_metrics m \<Longrightarrow> wf_metrics (inc_event e i m)"
  by (cases e) (simp_all add: inc_defs wf_bump)

lemma count_inc_event:
  "wf_metrics m \<Longrightarrow> i < SHARDS \<Longrightarrow> count_event c (inc_event e i m) = count_event c m + (if e = c then 1 else 0)"
  by (cases e; cases c) (simp_all add: inc_defs count_defs sum_bump)

lemma count_events:
  "wf_metrics m \<Longrightarrow> count_event c (fold (\<lambda>(k, e). inc_event e (shard_index k)) evs m)
     = count_event c m + of_nat (length (filter (\<lambda>(k, e). e = c) evs))"
proof (induction evs arbitrary: m)
  case (Cons ev evs)
  obtain k e where ev: "ev = (k, e)" by (cases ev)
  have "shard_index k < SHARDS" by (simp add: shard_index_def SHARDS_def)
  from count_inc_event [OF Cons.prems this] show ?case
    using Cons.IH [OF wf_inc_event [OF Cons.prems]] by (simp add: ev)
qed simp

text \<open>
  C31: the sharded counters count exactly: whatever threads report whatever events in whatever
  order, every counter reads as the number of its events, modulo \<open>2 ^ 64\<close>.
\<close>

theorem metrics_exact:
  "count_event c (fold (\<lambda>(k, e). inc_event e (shard_index k)) evs metrics_default)
     = of_nat (length (filter (\<lambda>(k, e). e = c) evs))"
proof -
  have "count_event c metrics_default = 0"
    by (cases c) (simp_all add: count_defs sum_shards_def metrics_default_def counters_default_def
        sum_list_replicate)
  moreover have "wf_metrics metrics_default" by (simp add: wf_metrics_def metrics_default_def)
  ultimately show ?thesis by (simp add: count_events)
qed


section \<open>The exposition text\<close>

lemma digit_of_decimal: "d < 10 \<Longrightarrow> digit_of 10 (char_of (48 + d)) = Some d"
  by (simp add: digit_of_def Let_def of_char_char_of_nat)

lemma decimal_digits: "map (digit_of 10) (decimal n) = map Some ds \<Longrightarrow> digits_value 10 ds = n"
proof (induction n arbitrary: ds rule: decimal.induct)
  case (1 n)
  show ?case
  proof (cases "n < 10")
    case True
    with 1 show ?thesis by (auto simp: decimal.simps [of n] digit_of_decimal digits_value_def)
  next
    case False
    with 1(2) obtain ds' where "map (digit_of 10) (decimal (n div 10)) = map Some ds'" "ds = ds' @ [n mod 10]"
      by (cases ds rule: rev_cases) (auto simp: decimal.simps [of n] digit_of_decimal)
    with 1(1) False show ?thesis by (simp add: digits_value_def)
  qed
qed

lemma decimal_all_digits: "\<exists>ds. map (digit_of 10) (decimal n) = map Some ds"
proof (induction n rule: decimal.induct)
  case (1 n)
  show ?case
  proof (cases "n < 10")
    case True
    then show ?thesis
      by (intro exI [of _ "[n]"]) (simp add: decimal.simps [of n] digit_of_decimal)
  next
    case False
    with 1 obtain ds where "map (digit_of 10) (decimal (n div 10)) = map Some ds" by blast
    with False show ?thesis
      by (intro exI [of _ "ds @ [n mod 10]"]) (simp add: decimal.simps [of n] digit_of_decimal)
  qed
qed

text \<open>A printed number reads back as itself.\<close>

lemma parse_decimal: "n \<le> hi \<Longrightarrow> parse_uint hi (decimal n) = Some n"
proof -
  assume n: "n \<le> hi"
  obtain ds where ds: "map (digit_of 10) (decimal n) = map Some ds" using decimal_all_digits by blast
  have "decimal n \<noteq> []" by (simp add: decimal.simps [of n])
  moreover have "hd (decimal n) \<noteq> CHR ''+''"
  proof
    assume "hd (decimal n) = CHR ''+''"
    with \<open>decimal n \<noteq> []\<close> ds have "digit_of 10 (CHR ''+'') \<in> set (map Some ds)"
      by (metis (no_types, lifting) list.set_sel(1) list.set_map imageI)
    then show False by (auto simp: digit_of_def)
  qed
  ultimately have body: "(case decimal n of CHR ''+'' # rest \<Rightarrow> rest | _ \<Rightarrow> decimal n) = decimal n"
    by (cases "decimal n") (auto split: char.splits bool.splits)
  have "None \<notin> set (map (digit_of 10) (decimal n))" unfolding ds by auto
  moreover have "map the (map (digit_of 10) (decimal n)) = ds" unfolding ds by (simp add: o_def)
  ultimately show ?thesis
    unfolding parse_uint_def Let_def body using decimal_digits [OF ds] n \<open>decimal n \<noteq> []\<close> by (simp del: map_map)
qed

lemma prometheus_reports:
  assumes "(name, help, v) \<in> set (prometheus_counters m)"
  shows "\<exists>pre num post. prometheus m = pre @ name @ '' '' @ num @ ''\<newline>'' @ post \<and>
    parse_uint (2 ^ 64 - 1) num = Some (unat v)"
proof -
  obtain xs ys where "prometheus_counters m = xs @ (name, help, v) # ys" using split_list [OF assms] by blast
  then have "prometheus m = (concat (map prometheus_line xs) @ ''# HELP '' @ name @ '' '' @ help @ ''\<newline># TYPE '' @
      name @ '' counter\<newline>'') @ name @ '' '' @ decimal (unat v) @ ''\<newline>'' @ concat (map prometheus_line ys)"
    by (simp add: prometheus_def prometheus_line_def)
  moreover have "unat v \<le> 2 ^ 64 - 1"
    using unsigned_less [of v, where 'a = nat] by (simp add: less_Suc_eq_le)
  ultimately show ?thesis using parse_decimal by blast
qed

end
