(* ===== verification/Network.thy ===== *)
theory Network
  imports Std_Parse Dash_Map
begin

text \<open>
  The network as the resolver components see it, and the framing of DNS messages on a stream
  (RFC 1035, section 4.2.2), which \<^verbatim>\<open>src/server.rs\<close>, \<^verbatim>\<open>src/doq.rs\<close>, \<^verbatim>\<open>src/forwarder.rs\<close> and
  \<^verbatim>\<open>src/recursive.rs\<close> each write out.

  What the operating system and the peers do is a parameter: a record of operations on a state
  \<open>'w\<close> of the world, with sockets of type \<open>'s\<close>.  A \<open>None\<close> or \<open>False\<close> stands for an error or a
  timeout.
\<close>

section \<open>The outside world\<close>

type_synonym 'a io_result = "(string, 'a) outcome"
record ('s, 'w) net =
  net_bind :: "socket_addr \<Rightarrow> 'w \<Rightarrow> 's option \<times> 'w"
    \<comment> \<open>a fresh UDP socket, connected to the address\<close>
  net_send :: "'s \<Rightarrow> bytes \<Rightarrow> 'w \<Rightarrow> bool \<times> 'w"
  net_recv :: "'s \<Rightarrow> 'w \<Rightarrow> bytes option \<times> 'w"
    \<comment> \<open>the next datagram, of at most 65535 bytes\<close>
  net_tcp :: "socket_addr \<Rightarrow> bytes \<Rightarrow> 'w \<Rightarrow> bytes option \<times> 'w"
    \<comment> \<open>connect, write the bytes, and read all the peer sends back\<close>
  net_now :: "'w \<Rightarrow> nat \<times> 'w"
    \<comment> \<open>\<open>Instant::now()\<close>, in nanoseconds\<close>


section \<open>Stream framing\<close>

text \<open>
  Two \<^verbatim>\<open>write_all\<close> calls, the length \<^verbatim>\<open>as u16\<close>; and two \<^verbatim>\<open>read_exact\<close> calls, where a stream that
  ends early is \<open>None\<close>.  \<open>read_frame\<close> also returns the rest of the stream.
\<close>

definition frame :: "bytes \<Rightarrow> bytes" where
  "frame msg = be_bytes 2 (of_nat (length msg) :: u16) @ msg"

definition read_exact :: "nat \<Rightarrow> bytes \<Rightarrow> (bytes \<times> bytes) option" where
  "read_exact n stream = (if n \<le> length stream then Some (take n stream, drop n stream) else None)"

definition read_frame :: "bytes \<Rightarrow> (bytes \<times> bytes) option" where
  "read_frame stream =
     (case read_exact 2 stream of
        None \<Rightarrow> None
      | Some (len_buf, rest) \<Rightarrow> read_exact (unat (be_word len_buf :: u16)) rest)"

lemma read_frame_frame: "length msg < 65536 \<Longrightarrow> read_frame (frame msg @ rest) = Some (msg, rest)"
  by (simp add: read_frame_def frame_def read_exact_def unat_of_nat)

text \<open>A message of \<open>2 ^ 16\<close> bytes or more is cut: its length is taken modulo \<open>2 ^ 16\<close>.\<close>

lemma read_frame_frame_mod:
  "read_frame (frame msg @ rest)
     = Some (take (length msg mod 65536) msg, drop (length msg mod 65536) msg @ rest)"
  by (simp add: read_frame_def frame_def read_exact_def unat_of_nat)

lemma read_frame_shorter: "read_frame s = Some (m, rest) \<Longrightarrow> length rest < length s"
  by (auto simp: read_frame_def read_exact_def split: if_splits)

lemma read_frame_length: "read_frame s = Some (m, rest) \<Longrightarrow> length m < 65536"
  by (auto simp: read_frame_def read_exact_def min_def unat_u16_less split: if_splits)

end
