(* ===== verification/Forwarder.thy ===== *)
theory Forwarder
  imports Network
begin

text \<open>
  The stub forwarder of \<^verbatim>\<open>src/forwarder.rs\<close>: a pool of connected UDP sockets per upstream, the
  matching of a reply to its query by transaction identifier, and the TCP retry of a truncated
  reply.  The semaphore only delays a query, so it is not part of the state.
\<close>

definition DEFAULT_POOL :: nat where "DEFAULT_POOL = 64"
definition MAX_STALE :: nat where "MAX_STALE = 4"

record 's forwarder =
  fwd_upstream :: socket_addr
  fwd_timeout :: nat
  fwd_permits :: nat
  fwd_pool :: "'s list"

definition with_concurrency :: "socket_addr \<Rightarrow> nat \<Rightarrow> nat \<Rightarrow> 's forwarder" where
  "with_concurrency up timeout max_concurrent =
     \<lparr>fwd_upstream = up, fwd_timeout = timeout, fwd_permits = max max_concurrent 1, fwd_pool = []\<rparr>"

definition forwarder_new :: "socket_addr \<Rightarrow> nat \<Rightarrow> 's forwarder" where
  "forwarder_new up timeout = with_concurrency up timeout DEFAULT_POOL"


text \<open>A socket of the pool, the last one first, or a new one.\<close>

definition checkout :: "('s, 'w) net \<Rightarrow> 's forwarder \<Rightarrow> 'w \<Rightarrow> 's io_result \<times> 's forwarder \<times> 'w" where
  "checkout net f w =
     (if fwd_pool f \<noteq> [] then (Ok (last (fwd_pool f)), f\<lparr>fwd_pool := butlast (fwd_pool f)\<rparr>, w)
      else (case net_bind net (fwd_upstream f) w of
              (Some s, w') \<Rightarrow> (Ok s, f, w')
            | (None, w') \<Rightarrow> (Err ''failed to bind upstream socket'', f, w')))"

definition query_tcp :: "('s, 'w) net \<Rightarrow> 's forwarder \<Rightarrow> bytes \<Rightarrow> 'w \<Rightarrow> bytes io_result \<times> 'w" where
  "query_tcp net f query w =
     (case net_tcp net (fwd_upstream f) (frame query) w of
        (None, w') \<Rightarrow> (Err ''failed to connect to upstream over TCP'', w')
      | (Some stream, w') \<Rightarrow>
          (case read_frame stream of
             None \<Rightarrow> (Err ''failed to read response from upstream over TCP'', w')
           | Some (resp, _) \<Rightarrow> (Ok resp, w')))"

text \<open>The receive loop, with \<open>k\<close> attempts left: datagrams with another identifier are skipped.\<close>

definition id_matches :: "bytes \<Rightarrow> bytes \<Rightarrow> bool" where
  "id_matches query d \<longleftrightarrow> 2 \<le> length d \<and> d ! 0 = query ! 0 \<and> d ! 1 = query ! 1"

fun recv_matching :: "('s, 'w) net \<Rightarrow> 's \<Rightarrow> bytes \<Rightarrow> nat \<Rightarrow> 'w \<Rightarrow> bytes io_result \<times> 'w" where
  "recv_matching net s query 0 w =
     (Err ''no matching upstream response (transaction ID mismatch)'', w)"
| "recv_matching net s query (Suc k) w =
     (case net_recv net s w of
        (None, w') \<Rightarrow> (Err ''failed to receive from upstream'', w')
      | (Some d, w') \<Rightarrow> (if id_matches query d then (Ok d, w') else recv_matching net s query k w'))"

definition truncated_bit :: "bytes \<Rightarrow> bool" where
  "truncated_bit d \<longleftrightarrow> 4 \<le> length d \<and> (d ! 2) AND 0x02 \<noteq> 0"

definition query_once :: "('s, 'w) net \<Rightarrow> 's forwarder \<Rightarrow> 's \<Rightarrow> bytes \<Rightarrow> 'w \<Rightarrow> bytes io_result \<times> 'w" where
  "query_once net f s query w =
     (case net_send net s query w of
        (False, w1) \<Rightarrow> (Err ''failed to send to upstream'', w1)
      | (True, w1) \<Rightarrow>
          (if length query < 2 then (Panic, w1)
           else (case recv_matching net s query MAX_STALE w1 of
                   (Ok d, w2) \<Rightarrow> (if truncated_bit d then query_tcp net f query w2 else (Ok d, w2))
                 | r \<Rightarrow> r)))"

text \<open>A socket goes back to the pool only after a success.\<close>

definition forward :: "('s, 'w) net \<Rightarrow> bytes \<Rightarrow> 's forwarder \<Rightarrow> 'w \<Rightarrow> bytes io_result \<times> 's forwarder \<times> 'w" where
  "forward net query f w =
     (if length query < 2 then (Err ''query too short to forward'', f, w)
      else (case checkout net f w of
              (Ok s, f1, w1) \<Rightarrow>
                (case query_once net f1 s query w1 of
                   (Ok resp, w2) \<Rightarrow> (Ok resp, f1\<lparr>fwd_pool := fwd_pool f1 @ [s]\<rparr>, w2)
                 | (r, w2) \<Rightarrow> (r, f1, w2))
            | (Err e, f1, w1) \<Rightarrow> (Err e, f1, w1)
            | (Panic, f1, w1) \<Rightarrow> (Panic, f1, w1)))"


section \<open>One forwarder per upstream\<close>

record 's multi_forwarder =
  forwarders :: "(socket_addr, 's forwarder) dash_map"
  mf_timeout :: nat

definition multi_forwarder_new :: "nat \<Rightarrow> 's multi_forwarder" where
  "multi_forwarder_new timeout = \<lparr>forwarders = [], mf_timeout = timeout\<rparr>"

definition get_or_create :: "socket_addr \<Rightarrow> 's multi_forwarder \<Rightarrow> 's forwarder \<times> 's multi_forwarder" where
  "get_or_create up mf =
     (case map_of (forwarders mf) up of
        Some f \<Rightarrow> (f, mf)
      | None \<Rightarrow>
          (let f = forwarder_new up (mf_timeout mf)
           in (f, mf\<lparr>forwarders := dm_insert up f (forwarders mf)\<rparr>)))"

text \<open>The forwarder is shared: what \<^verbatim>\<open>forward\<close> does to its pool stays in the map.\<close>

definition multi_forward ::
    "('s, 'w) net \<Rightarrow> bytes \<Rightarrow> socket_addr \<Rightarrow> 's multi_forwarder \<Rightarrow> 'w \<Rightarrow>
       bytes io_result \<times> 's multi_forwarder \<times> 'w" where
  "multi_forward net query up mf w =
     (let (f, mf1) = get_or_create up mf;
          (r, f', w') = forward net query f w
      in (r, mf1\<lparr>forwarders := dm_insert up f' (forwarders mf1)\<rparr>, w'))"

definition active_upstreams :: "'s multi_forwarder \<Rightarrow> socket_addr list" where
  "active_upstreams mf = map fst (forwarders mf)"


section \<open>Properties\<close>

lemma recv_matching_Ok: "recv_matching net s query k w = (Ok d, w') \<Longrightarrow> id_matches query d"
  by (induction k arbitrary: w) (auto split: prod.splits option.splits if_splits)

lemma recv_matching_not_Panic: "fst (recv_matching net s query k w) \<noteq> Panic"
  by (induction k arbitrary: w) (auto split: prod.splits option.splits)

lemma query_tcp_Ok:
  "query_tcp net f query w = (Ok r, w') \<Longrightarrow>
     \<exists>w1 stream rest. fst (net_tcp net (fwd_upstream f) (frame query) w1) = Some stream \<and>
       read_frame stream = Some (r, rest)"
  by (intro exI [of _ w]) (auto simp: query_tcp_def split: prod.splits option.splits)

lemma query_once_Ok:
  assumes "query_once net f s query w = (Ok r, w')"
  shows "id_matches query r \<and> \<not> truncated_bit r \<or>
    (\<exists>w1 stream rest. fst (net_tcp net (fwd_upstream f) (frame query) w1) = Some stream \<and>
       read_frame stream = Some (r, rest))"
  using assms
  by (auto simp: query_once_def split: prod.splits bool.splits if_splits outcome.splits
      dest: recv_matching_Ok query_tcp_Ok)

lemma checkout_upstream: "fwd_upstream (fst (snd (checkout net f w))) = fwd_upstream f"
  by (simp add: checkout_def split: prod.splits option.splits)

lemma forward_upstream: "fwd_upstream (fst (snd (forward net query f w))) = fwd_upstream f"
  using checkout_upstream [of net f w]
  by (auto simp: forward_def split: prod.splits outcome.splits)

lemma forward_Ok:
  assumes "forward net query f w = (Ok r, f', w')"
  shows "id_matches query r \<and> \<not> truncated_bit r \<or>
    (\<exists>w1 stream rest. fst (net_tcp net (fwd_upstream f) (frame query) w1) = Some stream \<and>
       read_frame stream = Some (r, rest))"
  using assms checkout_upstream [of net f w]
  by (auto simp: forward_def split: prod.splits outcome.splits if_splits dest!: query_once_Ok)

text \<open>Every forwarder of the map talks to the upstream it is filed under.\<close>

definition mf_inv :: "'s multi_forwarder \<Rightarrow> bool" where
  "mf_inv mf \<longleftrightarrow> wf_map (forwarders mf) \<and> (\<forall>a f. map_of (forwarders mf) a = Some f \<longrightarrow> fwd_upstream f = a)"

lemma get_or_create_inv:
  assumes "mf_inv mf"
  shows "mf_inv (snd (get_or_create up mf)) \<and> fwd_upstream (fst (get_or_create up mf)) = up"
  using assms
  by (auto simp: mf_inv_def get_or_create_def forwarder_new_def with_concurrency_def Let_def wf_dm_insert
      split: option.splits)

lemma multi_forward_inv:
  assumes "mf_inv mf"
  shows "mf_inv (fst (snd (multi_forward net query up mf w)))"
proof -
  obtain f mf1 where g: "get_or_create up mf = (f, mf1)" by fastforce
  obtain r f' w' where fw: "forward net query f w = (r, f', w')" by (metis prod_cases3)
  have "fwd_upstream f' = up"
    using forward_upstream [of net query f w] get_or_create_inv [OF assms, of up] g fw by simp
  then show ?thesis
    using get_or_create_inv [OF assms, of up] g fw
    by (auto simp: multi_forward_def mf_inv_def wf_dm_insert)
qed

lemma multi_forward_Ok:
  assumes "mf_inv mf" and "multi_forward net query up mf w = (Ok r, mf', w')"
  shows "id_matches query r \<and> \<not> truncated_bit r \<or>
    (\<exists>w1 stream rest. fst (net_tcp net up (frame query) w1) = Some stream \<and> read_frame stream = Some (r, rest))"
proof -
  obtain f mf1 where g: "get_or_create up mf = (f, mf1)" by fastforce
  obtain f' where "forward net query f w = (Ok r, f', w')"
    using assms(2) g by (auto simp: multi_forward_def split: prod.splits)
  from forward_Ok [OF this] show ?thesis using get_or_create_inv [OF assms(1), of up] g by simp
qed

text \<open>
  C32: a forwarded reply is the upstream's answer to this query: either a datagram that carries the
  query's transaction identifier and is not truncated, or, after a truncated one, the message
  read over TCP from the very upstream the rule chose; and after any number of forwards every
  forwarder is still filed under the upstream it talks to.
\<close>

theorem forwarded_reply:
  assumes "mf = fold (\<lambda>(q, a, w) mf. fst (snd (multi_forward net q a mf w))) history (multi_forwarder_new timeout)"
    and "multi_forward net query up mf w = (Ok r, mf', w')"
  shows "(id_matches query r \<and> \<not> truncated_bit r \<or>
      (\<exists>w1 stream rest. fst (net_tcp net up (frame query) w1) = Some stream \<and> read_frame stream = Some (r, rest))) \<and>
    (\<forall>a f. map_of (forwarders mf') a = Some f \<longrightarrow> fwd_upstream f = a)"
proof -
  have "mf_inv (fold (\<lambda>(q, a, w) mf. fst (snd (multi_forward net q a mf w))) history m)" if "mf_inv m" for m
    using that by (induction history arbitrary: m) (auto simp: multi_forward_inv)
  moreover have "mf_inv (multi_forwarder_new timeout :: 'a multi_forwarder)"
    by (simp add: mf_inv_def multi_forwarder_new_def wf_map_def)
  ultimately have inv: "mf_inv mf" using assms(1) by blast
  have "mf_inv mf'" using multi_forward_inv [OF inv, of net query up w] assms(2) by simp
  with multi_forward_Ok [OF inv assms(2)] show ?thesis by (simp add: mf_inv_def)
qed

text \<open>A world for the witness: one socket, on which a stale datagram precedes the reply.\<close>

definition sample_net :: "(unit, bytes list) net" where
  "sample_net = \<lparr>net_bind = \<lambda>_ w. (Some (), w), net_send = \<lambda>_ _ w. (True, w),
     net_recv = \<lambda>_ w. (case w of [] \<Rightarrow> (None, []) | d # ds \<Rightarrow> (Some d, ds)),
     net_tcp = \<lambda>_ _ w. (None, w), net_now = \<lambda>w. (0, w)\<rparr>"

theorem forwarded_reply_witness:
  "id_matches [1, 2, 0, 0] [1, 2, 0x80, 0] \<and>
   fst (multi_forward sample_net [1, 2, 0, 0] (SocketV4 8 53) (multi_forwarder_new 5) [[7, 7], [1, 2, 0x80, 0]])
     = Ok [1, 2, 0x80, 0] \<and> \<not> truncated_bit [1, 2, 0x80, 0]"
proof -
  have run: "multi_forward sample_net [1, 2, 0, 0] (SocketV4 8 53) (multi_forwarder_new 5) [[7, 7], [1, 2, 0x80, 0]]
      = (Ok [1, 2, 0x80, 0],
         \<lparr>forwarders = [(SocketV4 8 53, \<lparr>fwd_upstream = SocketV4 8 53, fwd_timeout = 5, fwd_permits = 64, fwd_pool = [()]\<rparr>)],
          mf_timeout = 5\<rparr>, [])"
    by code_simp
  show ?thesis
    using forwarded_reply [where history = "[]", OF _ run] run by (simp add: sample_net_def)
qed

end
