(* ===== verification/Recursive.thy ===== *)
theory Recursive
  imports Network Encoder Decoder
begin

text \<open>
  The iterative resolver of \<^verbatim>\<open>src/recursive.rs\<close>: from the root servers down the delegations, with
  query-name minimisation and a cache of delegations.  The semaphore only delays a resolution,
  so it is not part of the state.  The loop of \<^verbatim>\<open>resolve\<close> counts its rounds up to
  \<open>MAX_DELEGATION_DEPTH\<close>; here the rounds that remain are counted down.
\<close>

definition MAX_DELEGATION_DEPTH :: nat where "MAX_DELEGATION_DEPTH = 20"
definition EDNS_UDP_SIZE :: u16 where "EDNS_UDP_SIZE = 1232"

definition ROOT_HINTS :: "(string \<times> string) list" where
  "ROOT_HINTS =
     [(''a.root-servers.net'', ''198.41.0.4''), (''b.root-servers.net'', ''170.247.170.2''),
      (''c.root-servers.net'', ''192.33.4.12''), (''d.root-servers.net'', ''199.7.91.13''),
      (''e.root-servers.net'', ''192.203.230.10''), (''f.root-servers.net'', ''192.5.5.241''),
      (''g.root-servers.net'', ''192.112.36.4''), (''h.root-servers.net'', ''198.97.190.53''),
      (''i.root-servers.net'', ''192.36.148.17''), (''j.root-servers.net'', ''192.58.128.30''),
      (''k.root-servers.net'', ''193.0.14.129''), (''l.root-servers.net'', ''199.7.83.42''),
      (''m.root-servers.net'', ''202.12.27.33'')]"

record delegation =
  ns_names :: "string list"
  ns_addrs :: "socket_addr list"
  del_expires_at :: nat

definition is_expired :: "nat \<Rightarrow> delegation \<Rightarrow> bool" where
  "is_expired now d \<longleftrightarrow> del_expires_at d \<le> now"

record recursive_resolver =
  delegations :: "(string, delegation) dash_map"
  next_id :: u16

definition recursive_new :: recursive_resolver where
  "recursive_new = \<lparr>delegations = [], next_id = 1\<rparr>"

text \<open>\<^verbatim>\<open>str::parse::<IpAddr>\<close> and \<^verbatim>\<open>SocketAddr::new\<close>.\<close>

definition parse_ip :: "string \<Rightarrow> ip_addr option" where
  "parse_ip s = (case parse_ipv4 s of Some a \<Rightarrow> Some (V4 a) | None \<Rightarrow> map_option V6 (parse_ipv6 s))"

fun socket_of :: "ip_addr \<Rightarrow> u16 \<Rightarrow> socket_addr" where
  "socket_of (V4 a) p = SocketV4 a p"
| "socket_of (V6 a) p = SocketV6 a p 0"

definition root_servers :: "socket_addr list" where
  "root_servers = List.map_filter (\<lambda>(_, ip). map_option (\<lambda>a. socket_of a 53) (parse_ip ip)) ROOT_HINTS"

text \<open>Every hint is an address.\<close>

lemma length_root_servers: "length root_servers = length ROOT_HINTS"
  by code_simp

definition synth_servfail :: "string \<Rightarrow> u16 \<Rightarrow> u16 \<Rightarrow> bytes" where
  "synth_servfail name qt ident =
     to_bytes \<lparr>header = \<lparr>h_id = ident, h_flags = 0x8182, h_questions = 1, h_answers = 0,
                 h_authorities = 0, h_additionals = 0\<rparr>,
               questions = [\<lparr>qname = name, qtype = qt, qclass = 1\<rparr>],
               answers = [], authorities = [], additionals = []\<rparr>"


section \<open>Names\<close>

definition labels_of :: "string \<Rightarrow> string list" where
  "labels_of s = filter (\<lambda>l. l \<noteq> []) (split_on CHR ''.'' s)"

definition delegation_zone :: "string \<Rightarrow> string list \<Rightarrow> string" where
  "delegation_zone name ns = (case after_dot name of Some rest \<Rightarrow> rest | None \<Rightarrow> name)"

definition minimized_qname :: "string \<Rightarrow> string \<Rightarrow> string" where
  "minimized_qname name current_zone =
     (let labels = labels_of name in
      if labels = [] then name
      else if current_zone = [] then last labels
      else
        let query_labels = length (labels_of current_zone) + 1 in
        if length labels \<le> query_labels then name
        else join ''.'' (drop (length labels - query_labels) labels))"


section \<open>One query\<close>

definition query_packet :: "u16 \<Rightarrow> string \<Rightarrow> u16 \<Rightarrow> dns_packet" where
  "query_packet ident name qt =
     \<lparr>header = \<lparr>h_id = ident, h_flags = 0x0010, h_questions = 1, h_answers = 0,
        h_authorities = 0, h_additionals = 1\<rparr>,
      questions = [\<lparr>qname = name, qtype = qt, qclass = 1\<rparr>],
      answers = [], authorities = [], additionals = [OPT EDNS_UDP_SIZE]\<rparr>"

text \<open>Parsing a reply and comparing its identifier, on either transport.\<close>

definition check_reply :: "u16 \<Rightarrow> bytes \<Rightarrow> dns_packet io_result" where
  "check_reply ident bs =
     (case from_bytes bs of
        Err _ \<Rightarrow> Err ''failed to parse response''
      | Panic \<Rightarrow> Panic
      | Ok p \<Rightarrow> if h_id (header p) \<noteq> ident then Err ''transaction ID mismatch'' else Ok p)"

definition query_one_tcp ::
    "('s, 'w) net \<Rightarrow> bytes \<Rightarrow> socket_addr \<Rightarrow> u16 \<Rightarrow> 'w \<Rightarrow> dns_packet io_result \<times> 'w" where
  "query_one_tcp net query_bytes server expected_id w =
     (case net_tcp net server (frame query_bytes) w of
        (None, w') \<Rightarrow> (Err ''failed to connect over TCP'', w')
      | (Some stream, w') \<Rightarrow>
          (case read_frame stream of
             None \<Rightarrow> (Err ''failed to read response over TCP'', w')
           | Some (resp, _) \<Rightarrow> (check_reply expected_id resp, w')))"

definition query_one ::
    "('s, 'w) net \<Rightarrow> string \<Rightarrow> u16 \<Rightarrow> socket_addr \<Rightarrow> recursive_resolver \<Rightarrow> 'w \<Rightarrow>
       dns_packet io_result \<times> recursive_resolver \<times> 'w" where
  "query_one net name qt server rr w =
     (let ident = next_id rr;
          rr1 = rr\<lparr>next_id := next_id rr + 1\<rparr>;
          query_bytes = to_bytes (query_packet ident name qt)
      in case net_bind net server w of
           (None, w1) \<Rightarrow> (Err ''failed to bind resolver socket'', rr1, w1)
         | (Some s, w1) \<Rightarrow>
             (case net_send net s query_bytes w1 of
                (False, w2) \<Rightarrow> (Err ''failed to send query'', rr1, w2)
              | (True, w2) \<Rightarrow>
                  (case net_recv net s w2 of
                     (None, w3) \<Rightarrow> (Err ''recursive query timed out'', rr1, w3)
                   | (Some d, w3) \<Rightarrow>
                       (if 4 \<le> length d \<and> (d ! 2) AND 0x02 \<noteq> 0
                        then (let (res, w4) = query_one_tcp net query_bytes server ident w3 in (res, rr1, w4))
                        else (check_reply ident d, rr1, w3)))))"

text \<open>The servers in order; \<open>last_err\<close> is the error to report when none answers.\<close>

fun query_servers ::
    "('s, 'w) net \<Rightarrow> string \<Rightarrow> u16 \<Rightarrow> socket_addr list \<Rightarrow> string \<Rightarrow> recursive_resolver \<Rightarrow> 'w \<Rightarrow>
       dns_packet io_result \<times> recursive_resolver \<times> 'w" where
  "query_servers net name qt [] last_err rr w = (Err last_err, rr, w)"
| "query_servers net name qt (server # servers) last_err rr w =
     (case query_one net name qt server rr w of
        (Ok resp, rr1, w1) \<Rightarrow> (Ok resp, rr1, w1)
      | (Err e, rr1, w1) \<Rightarrow> query_servers net name qt servers e rr1 w1
      | (Panic, rr1, w1) \<Rightarrow> (Panic, rr1, w1))"


section \<open>Delegations\<close>

fun ns_target :: "dns_record \<Rightarrow> (string \<times> u32) option" where
  "ns_target (NS _ nameserver t) = Some (nameserver, t)"
| "ns_target _ = None"

fun glue_addr :: "string list \<Rightarrow> dns_record \<Rightarrow> socket_addr option" where
  "glue_addr names (A owner addr _) =
     (if list_ex (\<lambda>ns. eq_ignore_ascii_case ns owner) names then Some (socket_of (V4 addr) 53) else None)"
| "glue_addr names (AAAA owner addr _) =
     (if list_ex (\<lambda>ns. eq_ignore_ascii_case ns owner) names then Some (socket_of (V6 addr) 53) else None)"
| "glue_addr names _ = None"

text \<open>The addresses of the delegations cached under the servers' own names.\<close>

fun cached_addrs ::
    "('s, 'w) net \<Rightarrow> string list \<Rightarrow> recursive_resolver \<Rightarrow> 'w \<Rightarrow> socket_addr list \<times> 'w" where
  "cached_addrs net [] rr w = ([], w)"
| "cached_addrs net (ns # nss) rr w =
     (case map_of (delegations rr) ns of
        None \<Rightarrow> cached_addrs net nss rr w
      | Some d \<Rightarrow>
          (let (now, w1) = net_now net w; (rest, w2) = cached_addrs net nss rr w1
           in ((if is_expired now d then [] else ns_addrs d) @ rest, w2)))"

definition extract_delegation ::
    "('s, 'w) net \<Rightarrow> dns_packet \<Rightarrow> recursive_resolver \<Rightarrow> 'w \<Rightarrow> delegation option \<times> 'w" where
  "extract_delegation net resp rr w =
     (let targets = List.map_filter ns_target (authorities resp);
          names = map fst targets;
          ns_ttl = fold (\<lambda>(_, t) acc. min acc t) targets 3600
      in if names = [] then (None, w)
         else
           let glue = List.map_filter (glue_addr names) (additionals resp);
               (addrs, w1) = (if glue = [] then cached_addrs net names rr w else (glue, w))
           in if addrs = [] then (None, w1)
              else
                let (now, w2) = net_now net w1
                in (Some \<lparr>ns_names = names, ns_addrs = addrs,
                          del_expires_at = now + unat ns_ttl * 1000000000\<rparr>, w2))"


section \<open>The resolution loop\<close>

text \<open>A response of an authoritative server, as relayed to the client.\<close>

definition relay_response :: "u16 \<Rightarrow> dns_packet \<Rightarrow> dns_packet" where
  "relay_response client_id resp =
     resp\<lparr>header := (header resp)\<lparr>h_id := client_id,
        h_flags := (h_flags (header resp) AND NOT 0x0400) OR 0x0080\<rparr>\<rparr>"

fun resolve_loop ::
    "('s, 'w) net \<Rightarrow> string \<Rightarrow> u16 \<Rightarrow> u16 \<Rightarrow> nat \<Rightarrow> socket_addr list \<Rightarrow> string \<Rightarrow> recursive_resolver \<Rightarrow> 'w \<Rightarrow>
       bytes io_result \<times> recursive_resolver \<times> 'w" where
  "resolve_loop net name qt cid 0 servers current_zone rr w = (Ok (synth_servfail name qt cid), rr, w)"
| "resolve_loop net name qt cid (Suc k) servers current_zone rr w =
     (let query_name = minimized_qname name current_zone in
      case query_servers net query_name qt servers ''no servers available'' rr w of
        (Err e, rr1, w1) \<Rightarrow> (Ok (synth_servfail name qt cid), rr1, w1)
      | (Panic, rr1, w1) \<Rightarrow> (Panic, rr1, w1)
      | (Ok resp, rr1, w1) \<Rightarrow>
          (let rcode = h_flags (header resp) AND 0x000F in
           if answers resp \<noteq> [] \<or> rcode = 3 then
             (if query_name \<noteq> name then resolve_loop net name qt cid k root_servers [] rr1 w1
              else (Ok (to_bytes (relay_response cid resp)), rr1, w1))
           else if rcode = 0 then
             (case extract_delegation net resp rr1 w1 of
                (Some d, w2) \<Rightarrow>
                  (let z = delegation_zone query_name (ns_names d) in
                   resolve_loop net name qt cid k (ns_addrs d) z
                     (rr1\<lparr>delegations := dm_insert z d (delegations rr1)\<rparr>) w2)
              | (None, w2) \<Rightarrow>
                  (if query_name = name then (Ok (to_bytes (relay_response cid resp)), rr1, w2)
                   else resolve_loop net name qt cid k root_servers [] rr1 w2))
           else (Ok (to_bytes (relay_response cid resp)), rr1, w1)))"

text \<open>The servers to start from: those of a live delegation of the parent zone, or the root.\<close>

definition initial_servers ::
    "('s, 'w) net \<Rightarrow> string \<Rightarrow> recursive_resolver \<Rightarrow> 'w \<Rightarrow> socket_addr list \<times> recursive_resolver \<times> 'w" where
  "initial_servers net name rr w =
     (let parent = (case after_dot name of Some p \<Rightarrow> p | None \<Rightarrow> []) in
      case map_of (delegations rr) parent of
        None \<Rightarrow> (root_servers, rr, w)
      | Some d \<Rightarrow>
          (let (now, w1) = net_now net w in
           if is_expired now d
           then (root_servers, rr\<lparr>delegations := dm_remove parent (delegations rr)\<rparr>, w1)
           else (ns_addrs d, rr, w1)))"

definition resolve ::
    "('s, 'w) net \<Rightarrow> string \<Rightarrow> u16 \<Rightarrow> u16 \<Rightarrow> recursive_resolver \<Rightarrow> 'w \<Rightarrow>
       bytes io_result \<times> recursive_resolver \<times> 'w" where
  "resolve net name0 qt cid rr w =
     (let name = trim_end_dots (to_lowercase name0);
          (servers, rr1, w1) = initial_servers net name rr w
      in resolve_loop net name qt cid MAX_DELEGATION_DEPTH servers [] rr1 w1)"

section \<open>Minimised names\<close>

lemma labels_of_pieces: "l \<in> set (labels_of s) \<Longrightarrow> l \<noteq> [] \<and> CHR ''.'' \<notin> set l"
  using split_on_pieces [of l "CHR ''.''" s] by (auto simp: labels_of_def)

lemma labels_of_join:
  assumes "\<forall>l \<in> set ls. l \<noteq> [] \<and> CHR ''.'' \<notin> set l"
  shows "labels_of (join ''.'' ls) = ls"
proof (cases "ls = []")
  case False
  then have "split_on CHR ''.'' (join ''.'' ls) = ls" using assms by (intro split_on_join) auto
  then show ?thesis using assms by (simp add: labels_of_def)
qed (simp add: labels_of_def)

lemma labels_of_dotless: "CHR ''.'' \<notin> set s \<Longrightarrow> labels_of s = (if s = [] then [] else [s])"
  by (simp add: labels_of_def split_on_no_sep)

lemma after_dot_dotless: "CHR ''.'' \<notin> set s \<Longrightarrow> after_dot s = None"
  by (simp add: after_dot_None_iff)

text \<open>
  From a zone of at most one label, the minimised query has at most two labels, and the zone
  recorded for its delegation has at most one again.
\<close>

lemma minimized_qname_shallow:
  assumes "3 \<le> length (labels_of name)" and "CHR ''.'' \<notin> set z"
  shows "length (labels_of (minimized_qname name z)) \<le> 2"
    and "CHR ''.'' \<notin> set (delegation_zone (minimized_qname name z) ns)"
proof -
  let ?ls = "labels_of name"
  have ne: "?ls \<noteq> []" using assms(1) by auto
  have "length (labels_of (minimized_qname name z)) \<le> 2 \<and>
      CHR ''.'' \<notin> set (delegation_zone (minimized_qname name z) ns)"
  proof (cases "z = []")
    case True
    have l: "CHR ''.'' \<notin> set (last ?ls)" using labels_of_pieces [of "last ?ls" name] ne by simp
    show ?thesis
      using True ne l
      by (simp add: minimized_qname_def Let_def labels_of_dotless delegation_zone_def after_dot_dotless)
  next
    case False
    let ?ms = "drop (length ?ls - 2) ?ls"
    have q: "minimized_qname name z = join ''.'' ?ms"
      using False assms ne by (simp add: minimized_qname_def Let_def labels_of_dotless numeral_2_eq_2)
    have ms: "\<forall>l \<in> set ?ms. l \<noteq> [] \<and> CHR ''.'' \<notin> set l"
      by (auto dest!: in_set_dropD labels_of_pieces)
    have "length ?ms = 2" using assms(1) by simp
    then obtain a b where ab: "?ms = [a, b]" by (cases ?ms rule: list.exhaust; cases "tl ?ms") auto
    have "CHR ''.'' \<notin> set a" "CHR ''.'' \<notin> set b" using ms ab by auto
    then have "after_dot (a @ CHR ''.'' # b) = Some b" by (auto simp: after_dot_Some_iff)
    then have "delegation_zone (join ''.'' ?ms) ns = b" by (simp add: ab delegation_zone_def)
    then show ?thesis using labels_of_join [OF ms] ab ms q by simp
  qed
  then show "length (labels_of (minimized_qname name z)) \<le> 2"
    and "CHR ''.'' \<notin> set (delegation_zone (minimized_qname name z) ns)" by auto
qed

lemma minimized_qname_not_full:
  "3 \<le> length (labels_of name) \<Longrightarrow> CHR ''.'' \<notin> set z \<Longrightarrow> minimized_qname name z \<noteq> name"
  using minimized_qname_shallow(1) [of name z] by fastforce


section \<open>What a client is answered\<close>

text \<open>Every reply is a message, with the client's identifier, recursion available, and not authoritative.\<close>

definition reply_ok :: "u16 \<Rightarrow> bytes \<Rightarrow> bool" where
  "reply_ok cid bs \<longleftrightarrow> (\<exists>p. bs = to_bytes p \<and> h_id (header p) = cid \<and>
     h_flags (header p) AND 0x0080 = 0x0080 \<and> h_flags (header p) AND 0x0400 = 0)"

lemma reply_ok_servfail: "reply_ok cid (synth_servfail name qt cid)"
  unfolding reply_ok_def synth_servfail_def by (rule exI, rule conjI, rule refl) simp

lemma reply_ok_relay: "reply_ok cid (to_bytes (relay_response cid resp))"
proof -
  have "(f AND NOT 0x0400 OR 0x0080) AND 0x0080 = (0x0080 :: u16)" for f
    by (rule bit_word_eqI) (auto simp: bit_simps)
  moreover have "(f AND NOT 0x0400 OR 0x0080) AND 0x0400 = (0 :: u16)" for f
  proof -
    have "(0x0080 :: u16) AND 0x0400 = 0" by simp
    then show ?thesis by (simp add: bit.conj_disj_distrib2 and.assoc and.commute [of "NOT _"])
  qed
  ultimately show ?thesis unfolding reply_ok_def
    by (intro exI [of _ "relay_response cid resp"]) (simp add: relay_response_def)
qed

lemma resolve_loop_round:
  assumes "minimized_qname name z = q"
    and "query_servers net q qt servers ''no servers available'' rr w = (Ok resp, rr1, w1)"
    and "extract_delegation net resp rr1 w1 = (d, w2)"
  shows "fst (resolve_loop net name qt cid (Suc k) servers z rr w) =
    (if answers resp \<noteq> [] \<or> h_flags (header resp) AND 0x000F = 3 then
       (if q \<noteq> name then fst (resolve_loop net name qt cid k root_servers [] rr1 w1)
        else Ok (to_bytes (relay_response cid resp)))
     else if h_flags (header resp) AND 0x000F = 0 then
       (case d of
          Some d' \<Rightarrow> fst (resolve_loop net name qt cid k (ns_addrs d') (delegation_zone q (ns_names d'))
             (rr1\<lparr>delegations := dm_insert (delegation_zone q (ns_names d')) d' (delegations rr1)\<rparr>) w2)
        | None \<Rightarrow> (if q = name then Ok (to_bytes (relay_response cid resp))
                    else fst (resolve_loop net name qt cid k root_servers [] rr1 w2)))
     else Ok (to_bytes (relay_response cid resp)))"
  by (simp add: assms Let_def split: option.splits)

text \<open>
  Rounds by induction: a property of the result that holds for a failure, for a panic of the
  parser, and for the responses a round relays, holds for the loop; \<open>Z\<close> is an invariant of the
  zone a round queries from.
\<close>

lemma resolve_loop_invariant:
  assumes "Z z" and "Z []"
    and zone: "\<And>z ns. Z z \<Longrightarrow> Z (delegation_zone (minimized_qname name z) ns)"
    and servfail: "P (Ok (synth_servfail name qt cid))" and panic: "P Panic"
    and relay: "\<And>resp z. Z z \<Longrightarrow>
       minimized_qname name z = name \<or> answers resp = [] \<and> h_flags (header resp) AND 0x000F \<notin> {0, 3} \<Longrightarrow>
       P (Ok (to_bytes (relay_response cid resp)))"
  shows "P (fst (resolve_loop net name qt cid k servers z rr w))"
  using assms(1)
proof (induction k arbitrary: servers z rr w)
  case 0
  show ?case by (simp add: servfail)
next
  case (Suc k)
  let ?q = "minimized_qname name z"
  obtain res rr1 w1 where qs: "query_servers net ?q qt servers ''no servers available'' rr w = (res, rr1, w1)"
    by (metis prod_cases3)
  show ?case
  proof (cases res)
    case (Ok resp)
    obtain d w2 where ed: "extract_delegation net resp rr1 w1 = (d, w2)" by fastforce
    note round = resolve_loop_round [OF refl qs [unfolded Ok] ed]
    show ?thesis
      unfolding round using relay [OF Suc.prems, of resp] zone [OF Suc.prems]
      by (cases d) (simp_all add: Suc.IH assms(2))
  qed (use qs in \<open>simp_all add: servfail panic Let_def\<close>)
qed

lemma resolve_loop_reply:
  "case fst (resolve_loop net name qt cid k servers z rr w) of Ok bs \<Rightarrow> reply_ok cid bs | Err _ \<Rightarrow> False | Panic \<Rightarrow> True"
  by (rule resolve_loop_invariant [where Z = "\<lambda>_. True"]) (simp_all add: reply_ok_servfail reply_ok_relay)

text \<open>The replies a name of three labels or more can get: a failure, or another server's error.\<close>

definition no_answer :: "string \<Rightarrow> u16 \<Rightarrow> u16 \<Rightarrow> bytes \<Rightarrow> bool" where
  "no_answer name qt cid bs \<longleftrightarrow> bs = synth_servfail name qt cid \<or>
     (\<exists>p. bs = to_bytes (relay_response cid p) \<and> answers p = [] \<and> h_flags (header p) AND 0x000F \<notin> {0, 3})"

lemma resolve_loop_deep:
  assumes "3 \<le> length (labels_of name)" and "CHR ''.'' \<notin> set z"
  shows "case fst (resolve_loop net name qt cid k servers z rr w) of Ok bs \<Rightarrow> no_answer name qt cid bs | _ \<Rightarrow> True"
proof (rule resolve_loop_invariant [where Z = "\<lambda>z. CHR ''.'' \<notin> set z"])
  show "CHR ''.'' \<notin> set (delegation_zone (minimized_qname name z) ns)" if "CHR ''.'' \<notin> set z" for z ns
    using minimized_qname_shallow(2) [OF assms(1) that] .
  show "case Ok (to_bytes (relay_response cid resp)) of Ok bs \<Rightarrow> no_answer name qt cid bs | _ \<Rightarrow> True"
    if "CHR ''.'' \<notin> set z" and "minimized_qname name z = name \<or>
        answers resp = [] \<and> h_flags (header resp) AND 0x000F \<notin> {0, 3}" for resp z
    using that minimized_qname_not_full [OF assms(1) that(1)] by (auto simp: no_answer_def)
qed (use assms(2) in \<open>simp_all add: no_answer_def\<close>)

text \<open>A network on which no message makes the parser panic.\<close>

definition harmless :: "('s, 'w) net \<Rightarrow> bool" where
  "harmless net \<longleftrightarrow>
     (\<forall>s w d. fst (net_recv net s w) = Some d \<longrightarrow> from_bytes d \<noteq> Panic) \<and>
     (\<forall>a q w stream m rest. fst (net_tcp net a q w) = Some stream \<longrightarrow> read_frame stream = Some (m, rest) \<longrightarrow>
        from_bytes m \<noteq> Panic)"

lemma check_reply_Panic: "check_reply ident d = Panic \<longleftrightarrow> from_bytes d = Panic"
  by (simp add: check_reply_def split: outcome.splits)

lemma query_one_not_Panic:
  assumes "harmless net"
  shows "fst (query_one net name qt server rr w) \<noteq> Panic"
proof -
  have tcp: "fst (query_one_tcp net q server ident w) \<noteq> Panic" for q ident w
    using assms unfolding harmless_def query_one_tcp_def
    by (cases "net_tcp net server (frame q) w") (auto simp: check_reply_Panic split: option.splits, metis fst_conv)
  have udp: "net_recv net s w1 = (Some d, w2) \<Longrightarrow> check_reply ident d \<noteq> Panic" for s w1 d w2 ident
    using assms unfolding harmless_def check_reply_Panic by (metis fst_conv)
  show ?thesis
    using tcp udp by (auto simp: query_one_def Let_def split: prod.splits option.splits bool.splits)
      (metis fst_conv)+
qed

lemma query_servers_not_Panic:
  "harmless net \<Longrightarrow> fst (query_servers net name qt servers e rr w) \<noteq> Panic"
proof (induction servers arbitrary: e rr w)
  case (Cons s servers)
  then show ?case
    using query_one_not_Panic [OF Cons.prems, of name qt s rr w]
    by (cases "query_one net name qt s rr w") (auto split: outcome.splits)
qed simp

lemma resolve_loop_not_Panic:
  assumes "harmless net"
  shows "fst (resolve_loop net name qt cid k servers z rr w) \<noteq> Panic"
proof (induction k arbitrary: servers z rr w)
  case (Suc k)
  obtain res rr1 w1 where qs: "query_servers net (minimized_qname name z) qt servers ''no servers available'' rr w
      = (res, rr1, w1)"
    by (metis prod_cases3)
  have "res \<noteq> Panic"
    using query_servers_not_Panic [OF assms, of "minimized_qname name z" qt servers "''no servers available''" rr w]
      qs by simp
  show ?case
  proof (cases res)
    case (Ok resp)
    obtain d w2 where ed: "extract_delegation net resp rr1 w1 = (d, w2)" by fastforce
    show ?thesis
      unfolding resolve_loop_round [OF refl qs [unfolded Ok] ed] by (simp add: Suc.IH split: option.splits)
  qed (use qs \<open>res \<noteq> Panic\<close> in \<open>simp_all add: Let_def\<close>)
qed simp

lemma resolve_reply_ok:
  assumes "harmless net"
  shows "\<exists>bs. fst (resolve net name qt cid rr w) = Ok bs \<and> reply_ok cid bs"
proof -
  obtain servers rr1 w1 where i: "initial_servers net (trim_end_dots (to_lowercase name)) rr w = (servers, rr1, w1)"
    by (metis prod_cases3)
  let ?out = "fst (resolve_loop net (trim_end_dots (to_lowercase name)) qt cid MAX_DELEGATION_DEPTH servers [] rr1 w1)"
  have "fst (resolve net name qt cid rr w) = ?out" by (simp add: resolve_def i Let_def)
  moreover have "?out \<noteq> Panic" by (rule resolve_loop_not_Panic [OF assms])
  ultimately show ?thesis
    using resolve_loop_reply [where net = net and name = "trim_end_dots (to_lowercase name)" and qt = qt and cid = cid
        and k = MAX_DELEGATION_DEPTH and servers = servers and z = "[]" and rr = rr1 and w = w1]
    by (cases ?out) simp_all
qed

text \<open>
  C11: recursion always comes back with a reply: whatever the authoritative servers send, lose or
  delay, the resolution ends within its bound of rounds with a message that has the client's
  identifier, offers recursion and does not claim authority, as long as no message panics the
  parser.
\<close>

theorem resolve_always_replies:
  assumes "harmless net"
  shows "\<exists>bs. fst (resolve net name qt cid rr w) = Ok bs \<and> reply_ok cid bs"
  using assms by (rule resolve_reply_ok)

text \<open>A network on which nothing answers.\<close>

definition dead_net :: "(unit, unit) net" where
  "dead_net = \<lparr>net_bind = \<lambda>_ w. (Some (), w), net_send = \<lambda>_ _ w. (True, w), net_recv = \<lambda>_ w. (None, w),
     net_tcp = \<lambda>_ _ w. (None, w), net_now = \<lambda>w. (0, w)\<rparr>"

theorem resolve_always_replies_witness:
  "\<exists>bs. fst (resolve dead_net ''a.b'' 1 7 recursive_new ()) = Ok bs \<and> reply_ok 7 bs"
  by (rule resolve_always_replies) (simp add: harmless_def dead_net_def)

text \<open>
  C33: a name of three labels or more is never resolved.  Each delegation is filed under the parent
  of the minimised name, so the query never grows beyond two labels, and the full name is never
  asked for: whatever the network answers, the client gets a failure, or an error response
  without answers.
\<close>

theorem resolve_deep_name_unanswered:
  assumes "3 \<le> length (labels_of (trim_end_dots (to_lowercase name)))"
    and "fst (resolve net name qt cid rr w) = Ok bs"
  shows "bs = synth_servfail (trim_end_dots (to_lowercase name)) qt cid \<or>
    (\<exists>p. bs = to_bytes (relay_response cid p) \<and> answers p = [] \<and> h_flags (header p) AND 0x000F \<notin> {0, 3})"
proof -
  obtain servers rr1 w1 where i: "initial_servers net (trim_end_dots (to_lowercase name)) rr w = (servers, rr1, w1)"
    by (metis prod_cases3)
  show ?thesis
    using resolve_loop_deep [OF assms(1), where net = net and qt = qt and cid = cid
        and k = MAX_DELEGATION_DEPTH and servers = servers and z = "[]" and rr = rr1 and w = w1] assms(2)
    by (simp add: resolve_def i Let_def no_answer_def)
qed

theorem resolve_deep_name_unanswered_witness:
  "3 \<le> length (labels_of (trim_end_dots (to_lowercase ''a.b.c''))) \<and>
   (\<exists>bs. fst (resolve dead_net ''a.b.c'' 1 7 recursive_new ()) = Ok bs \<and>
      (bs = synth_servfail (trim_end_dots (to_lowercase ''a.b.c'')) 1 7 \<or>
       (\<exists>p. bs = to_bytes (relay_response 7 p) \<and> answers p = [] \<and> h_flags (header p) AND 0x000F \<notin> {0, 3})))"
proof -
  have three: "3 \<le> length (labels_of (trim_end_dots (to_lowercase ''a.b.c'')))" by code_simp
  have "harmless dead_net" by (simp add: harmless_def dead_net_def)
  then obtain bs where bs: "fst (resolve dead_net ''a.b.c'' 1 7 recursive_new ()) = Ok bs"
    by (elim resolve_reply_ok [THEN exE]) (rule that, erule conjunct1)
  show ?thesis by (intro conjI exI) (rule three bs resolve_deep_name_unanswered [OF three bs])+
qed

text \<open>
  Query-name minimisation asks for exactly one label more than the zone it asks from: the top
  label at the root, and below a zone of \<open>n\<close> labels the last \<open>n + 1\<close> labels, up to the full name.
\<close>

theorem minimized_qname_adds_label:
  assumes "\<forall>l \<in> set (us @ zs). l \<noteq> [] \<and> CHR ''.'' \<notin> set l" and "us \<noteq> []"
  shows "minimized_qname (join ''.'' (us @ zs)) (join ''.'' zs) = join ''.'' (last us # zs)"
proof -
  have ls: "labels_of (join ''.'' (us @ zs)) = us @ zs" using assms(1) by (rule labels_of_join)
  have zs: "labels_of (join ''.'' zs) = zs" using assms(1) by (intro labels_of_join) simp
  obtain vs l where us: "us = vs @ [l]" using assms(2) by (cases us rule: rev_cases) auto
  show ?thesis
  proof (cases "zs = []")
    case True
    then show ?thesis using ls assms(2) by (simp add: minimized_qname_def Let_def)
  next
    case False
    then have ne: "join ''.'' zs \<noteq> []" using zs by (auto simp: labels_of_def)
    then show ?thesis
      using ls by (cases "vs = []") (simp_all add: minimized_qname_def Let_def zs us)
  qed
qed

theorem minimized_qname_adds_label_witness:
  "minimized_qname ''a.b.c.d'' ''c.d'' = ''b.c.d''"
  using minimized_qname_adds_label [of "[''a'', ''b'']" "[''c'', ''d'']"] by simp

end
