(* ===== verification/State.thy ===== *)
theory State
  imports Resolver Zone_File Cache Rate_Limiter Acl Blocklist Dnssec Metrics
    Forwarder Recursive "HOL-Library.List_Lexorder" "HOL-Library.Char_ord"
begin

text \<open>
  The server state and the query logic of \<^verbatim>\<open>src/state.rs\<close>: how a request is rate-limited,
  parsed, filtered, answered from the zones (with DNSSEC and DNS64), from the cache, or by
  forwarding.  What a call reads from its surroundings is the argument \<open>env\<close>: the shard of the
  running thread, the clocks, the iteration order of its hash map of RRsets, the victim a full
  cache evicts, and the Ed25519 implementation.  The map of the queries in flight is in the
  theory \<open>Single_Flight\<close>.
\<close>

section \<open>Data\<close>

datatype transport = Udp | Tcp

definition RCODE_SERVFAIL :: u16 where "RCODE_SERVFAIL = 2"
definition RCODE_NXDOMAIN :: u16 where "RCODE_NXDOMAIN = 3"
definition FLAG_RD :: u16 where "FLAG_RD = 0x0100"
definition FLAG_RA :: u16 where "FLAG_RA = 0x0080"

record forward_ctx =
  ctx_request :: dns_packet
  ctx_raw :: bytes
  ctx_name :: string
  ctx_qtype :: u16
  ctx_upstream :: socket_addr
  ctx_transport :: transport

datatype resolution = Ready bytes | Forward forward_ctx | Drop

record 's server_state =
  s_zones :: zone_set
  s_zone_path :: "string option"
  s_forward_rules :: "socket_addr forward_rules"
  s_forwarder :: "'s multi_forwarder option"
  s_recursive :: "recursive_resolver option"
  s_cache :: cache
  s_limiter :: rate_limiter
  s_blocklist :: blocklist
  s_dns64_prefix :: "ipv6 option"
  s_axfr_acl :: acl
  s_dnssec_keys :: "dnssec_keys option"
  s_metrics :: metrics

type_synonym rrset = "(string \<times> u16) \<times> dns_record list"

record env =
  shard :: nat
  limiter_clock :: nat
  cache_clock :: nat
  insert_clock :: nat
  insert_clock' :: nat
  unix_clock :: "nat \<Rightarrow> u32"
    \<comment> \<open>the successive readings of \<open>now_as_u32\<close>\<close>
  rrset_order :: "rrset list \<Rightarrow> rrset list"
  first_key :: "(cache_key, cache_entry) dash_map \<Rightarrow> cache_key option"
  ed25519 :: "bytes \<Rightarrow> (bytes \<Rightarrow> bytes) option"


section \<open>Construction\<close>

definition server_new ::
    "zone_set \<Rightarrow> string option \<Rightarrow> socket_addr forward_rules \<Rightarrow> 's multi_forwarder option \<Rightarrow> cache \<Rightarrow> rate_limiter \<Rightarrow>
       's server_state" where
  "server_new zs zone_path frules fwd c lim =
     \<lparr>s_zones = zs, s_zone_path = zone_path, s_forward_rules = frules, s_forwarder = fwd,
      s_recursive = None, s_cache = c, s_limiter = lim, s_blocklist = blocklist_empty,
      s_dns64_prefix = None, s_axfr_acl = deny_all, s_dnssec_keys = None, s_metrics = metrics_default\<rparr>"

definition with_blocklist :: "'s server_state \<Rightarrow> blocklist \<Rightarrow> 's server_state" where
  "with_blocklist st bl = st\<lparr>s_blocklist := bl\<rparr>"

definition with_dns64 :: "'s server_state \<Rightarrow> ipv6 \<Rightarrow> 's server_state" where
  "with_dns64 st pfx = st\<lparr>s_dns64_prefix := Some pfx\<rparr>"

definition with_axfr_acl :: "'s server_state \<Rightarrow> acl \<Rightarrow> 's server_state" where
  "with_axfr_acl st a = st\<lparr>s_axfr_acl := a\<rparr>"

definition with_recursive :: "'s server_state \<Rightarrow> 's server_state" where
  "with_recursive st = st\<lparr>s_recursive := Some recursive_new\<rparr>"

definition with_dnssec :: "'s server_state \<Rightarrow> dnssec_keys \<Rightarrow> 's server_state" where
  "with_dnssec st ks = st\<lparr>s_dnssec_keys := Some ks\<rparr>"

definition authoritative_server :: "zone_set \<Rightarrow> 's server_state" where
  "authoritative_server zs =
     server_new zs None forward_rules_none None (cache_new 1024) limiter_disabled"

definition recursion_available :: "'s server_state \<Rightarrow> bool" where
  "recursion_available st \<longleftrightarrow> is_enabled (s_forward_rules st) \<or> s_recursive st \<noteq> None"

definition cleanup_rate_limiter :: "nat \<Rightarrow> 's server_state \<Rightarrow> 's server_state" where
  "cleanup_rate_limiter now st = st\<lparr>s_limiter := cleanup now (s_limiter st)\<rparr>"

text \<open>Counting an event on the shard of the running thread.\<close>

abbreviation tally :: "(nat \<Rightarrow> metrics \<Rightarrow> metrics) \<Rightarrow> env \<Rightarrow> 's server_state \<Rightarrow> 's server_state" where
  "tally inc e st \<equiv> st\<lparr>s_metrics := inc (shard e) (s_metrics st)\<rparr>"


text \<open>
  \<^verbatim>\<open>reload\<close>: from the configuration if the path ends in \<open>.toml\<close>, else a single zone file; a
  blocklist that cannot be reloaded is only logged.
\<close>

definition reload ::
    "reader_of_files \<Rightarrow> (string \<Rightarrow> settings option) \<Rightarrow> 's server_state \<Rightarrow>
       (config_error, unit) outcome \<times> 's server_state" where
  "reload read_file toml st =
     (case s_zone_path st of
        None \<Rightarrow> (Ok (), st)
      | Some p \<Rightarrow>
          if suffix ''.toml'' p then
            (case obind (load_settings read_file toml p) (\<lambda>s.
                    obind (load_zones_from_settings read_file s) (\<lambda>zs. Ok (s, zs))) of
               Ok (s, zs) \<Rightarrow>
                 (Ok (), st\<lparr>s_zones := zs,
                    s_blocklist := (if st_blocklist s \<noteq> None
                       then snd (blocklist_reload read_file (s_blocklist st)) else s_blocklist st)\<rparr>)
             | Err x \<Rightarrow> (Err x, st)
             | Panic \<Rightarrow> (Panic, st))
          else
            (case load_zone_file read_file p of
               Ok z \<Rightarrow> (Ok (), st\<lparr>s_zones := zone_set_from_single (inferred_origin z) z\<rparr>)
             | Err x \<Rightarrow> (Err x, st)
             | Panic \<Rightarrow> (Panic, st)))"


section \<open>Encoding and replaying responses\<close>

definition synth_response :: "dns_packet \<Rightarrow> dns_record list \<Rightarrow> u16 \<Rightarrow> dns_packet" where
  "synth_response request ans rcode =
     \<lparr>header = \<lparr>h_id = h_id (header request),
        h_flags = 0x8000 OR (h_flags (header request) AND FLAG_RD) OR FLAG_RA OR rcode,
        h_questions = of_nat (length (questions request)), h_answers = of_nat (length ans),
        h_authorities = 0, h_additionals = 0\<rparr>,
      questions = questions request, answers = ans, authorities = [], additionals = []\<rparr>"

definition encode_for :: "dns_packet \<Rightarrow> transport \<Rightarrow> bytes" where
  "encode_for p tr = (case tr of Udp \<Rightarrow> to_udp_bytes p | Tcp \<Rightarrow> to_bytes p)"

definition patch_transaction_id :: "bytes \<Rightarrow> u16 \<Rightarrow> bytes" where
  "patch_transaction_id bs ident = (if 2 \<le> length bs then be_bytes 2 ident @ drop 2 bs else bs)"

text \<open>The first OPT record replaced, if there is one.\<close>

fun replace_opt :: "u16 \<Rightarrow> dns_record list \<Rightarrow> dns_record list option" where
  "replace_opt n [] = None"
| "replace_opt n (r # rs) =
     (if is_opt r then Some (OPT n # rs) else map_option (\<lambda>rs'. r # rs') (replace_opt n rs))"

definition align_edns :: "dns_packet \<Rightarrow> dns_packet \<Rightarrow> dns_packet" where
  "align_edns p request =
     (case edns_udp_size request of
        Some client_size \<Rightarrow>
          (let negotiated = clamp_u16 client_size (of_nat MAX_UDP_SIZE) (of_nat MAX_EDNS_UDP) in
           p\<lparr>additionals := (case replace_opt negotiated (additionals p) of
                Some rs \<Rightarrow> rs
              | None \<Rightarrow> additionals p @ [OPT negotiated])\<rparr>)
      | None \<Rightarrow> p\<lparr>additionals := filter (\<lambda>r. \<not> is_opt r) (additionals p)\<rparr>)"

definition replay :: "bytes \<Rightarrow> dns_packet \<Rightarrow> transport \<Rightarrow> bytes io_result" where
  "replay raw request tr =
     (case tr of
        Tcp \<Rightarrow> Ok (patch_transaction_id raw (h_id (header request)))
      | Udp \<Rightarrow>
          (case from_bytes raw of
             Ok p \<Rightarrow>
               Ok (to_udp_bytes (align_edns (p\<lparr>header := (header p)\<lparr>h_id := h_id (header request)\<rparr>\<rparr>) request))
           | Err _ \<Rightarrow> Ok (patch_transaction_id raw (h_id (header request)))
           | Panic \<Rightarrow> Panic))"

definition NEG_TTL_DEFAULT :: u32 where "NEG_TTL_DEFAULT = 30"
definition NEG_TTL_MAX :: u32 where "NEG_TTL_MAX = 3600"

text \<open>\<^verbatim>\<open>records.iter().map(|r| r.ttl()).min()\<close>\<close>

fun min_ttl :: "dns_record list \<Rightarrow> u32 option" where
  "min_ttl [] = None"
| "min_ttl (r # rs) = Some (fold (\<lambda>x m. min m (ttl x)) rs (ttl r))"

fun soa_minimum :: "dns_record \<Rightarrow> u32 option" where
  "soa_minimum (SOA _ _ _ _ _ _ _ m _) = Some m"
| "soa_minimum _ = None"

definition cache_ttl :: "dns_packet \<Rightarrow> u32 option" where
  "cache_ttl p =
     (let rcode = h_flags (header p) AND 0x000F in
      if answers p \<noteq> [] then Some (case min_ttl (answers p) of Some t \<Rightarrow> t | None \<Rightarrow> 0)
      else if rcode = RCODE_NXDOMAIN \<or> rcode = 0 then
        Some (case find_map soa_minimum (authorities p) of
                Some m \<Rightarrow> min m NEG_TTL_MAX | None \<Rightarrow> NEG_TTL_DEFAULT)
      else None)"


section \<open>DNS64\<close>

definition DNS64_WELL_KNOWN_PREFIX :: ipv6 where
  "DNS64_WELL_KNOWN_PREFIX = groups_addr [0x64, 0xff9b, 0, 0, 0, 0, 0, 0]"

definition synthesize_aaaa :: "ipv6 \<Rightarrow> ipv4 \<Rightarrow> u32 \<Rightarrow> string \<Rightarrow> dns_record" where
  "synthesize_aaaa pfx v4 t owner = AAAA owner (be_word (take 12 (octets6 pfx) @ octets4 v4)) t"

fun dns64_record :: "ipv6 \<Rightarrow> string \<Rightarrow> dns_record \<Rightarrow> dns_record option" where
  "dns64_record pfx name (A _ addr t) = Some (synthesize_aaaa pfx addr t name)"
| "dns64_record pfx name _ = None"

definition apply_dns64 :: "dns_packet \<Rightarrow> zone_set \<Rightarrow> string \<Rightarrow> ipv6 \<Rightarrow> dns_packet" where
  "apply_dns64 resp zs qn pfx =
     (if list_ex (\<lambda>r. record_type r = TYPE_AAAA) (answers resp) then resp
      else
        let name = to_lowercase qn in
        case zone_set_find zs name of
          None \<Rightarrow> resp
        | Some z \<Rightarrow>
            (case map_of (records z) name of
               None \<Rightarrow> resp
             | Some rs \<Rightarrow>
                 (let a_records = filter (\<lambda>r. record_type r = TYPE_A) rs in
                  if a_records = [] then resp
                  else
                    let synthesized = List.map_filter (dns64_record pfx name) a_records in
                    resp\<lparr>answers := synthesized, authorities := [],
                         header := (header resp)\<lparr>
                           h_flags := (h_flags (header resp) AND NOT 0x000F) OR 0x0400,
                           h_answers := of_nat (length synthesized), h_authorities := 0\<rparr>\<rparr>)))"


section \<open>DNSSEC\<close>

text \<open>\<^verbatim>\<open>entry(key).or_default().push(r)\<close>\<close>

fun rrset_push :: "string \<times> u16 \<Rightarrow> dns_record \<Rightarrow> rrset list \<Rightarrow> rrset list" where
  "rrset_push key r [] = [(key, [r])]"
| "rrset_push key r ((k, rs) # m) = (if k = key then (k, rs @ [r]) # m else (k, rs) # rrset_push key r m)"

definition rrsets :: "dns_record list \<Rightarrow> rrset list" where
  "rrsets ans = fold (\<lambda>r. rrset_push (domain r, record_type r) r) ans []"

text \<open>The loop over the RRsets; \<open>i\<close> counts the signatures asked for, each reading the clock twice.\<close>

fun sign_groups :: "env \<Rightarrow> dnssec_keys \<Rightarrow> string \<Rightarrow> nat \<Rightarrow> rrset list \<Rightarrow> dns_record list sign_result" where
  "sign_groups e ks signer i [] = Ok []"
| "sign_groups e ks signer i (((owner, rtype), rs) # groups) =
     (let t = (case min_ttl rs of Some t \<Rightarrow> t | None \<Rightarrow> 3600) in
      case sign_rrset (ed25519 e) ks rs signer t (unix_clock e (2 * i)) (unix_clock e (2 * i + 1) + 2592000) of
        Ok rrsig \<Rightarrow> obind (sign_groups e ks signer (i + 1) groups) (\<lambda>sigs. Ok (with_domain rrsig owner # sigs))
      | Err _ \<Rightarrow> sign_groups e ks signer (i + 1) groups
      | Panic \<Rightarrow> Panic)"

definition set_answers :: "dns_record list \<Rightarrow> dns_packet \<Rightarrow> dns_packet" where
  "set_answers ans p = p\<lparr>answers := ans, header := (header p)\<lparr>h_answers := of_nat (length ans)\<rparr>\<rparr>"

definition apply_dnssec ::
    "env \<Rightarrow> dns_packet \<Rightarrow> zone_set \<Rightarrow> string \<Rightarrow> u16 \<Rightarrow> dnssec_keys \<Rightarrow> dns_packet sign_result" where
  "apply_dnssec e resp zs qn qt ks =
     (let name = to_lowercase qn;
          zone = zone_set_find zs name;
          keys = dnskey_records ks 3600
      in if qt = TYPE_DNSKEY \<and> (case zone of Some z \<Rightarrow> origin z = name | None \<Rightarrow> False) \<and> keys \<noteq> [] then
           (let resp1 = set_answers keys
                  (resp\<lparr>authorities := [],
                        header := (header resp)\<lparr>
                          h_flags := (h_flags (header resp) OR 0x0400) AND NOT 0x000F,
                          h_authorities := 0\<rparr>\<rparr>)
            in case sign_rrset (ed25519 e) ks keys name 3600 (unix_clock e 0) (unix_clock e 1 + 2592000) of
                 Ok rrsig \<Rightarrow> Ok (set_answers (keys @ [rrsig]) resp1)
               | Err _ \<Rightarrow> Ok resp1
               | Panic \<Rightarrow> Panic)
         else if answers resp = [] then Ok resp
         else
           let signer = (case zone of Some z \<Rightarrow> origin z | None \<Rightarrow> []) in
           if signer = [] then Ok resp
           else obind (sign_groups e ks signer 0 (rrset_order e (rrsets (answers resp)))) (\<lambda>sigs.
             Ok (if sigs = [] then resp else set_answers (answers resp @ sigs) resp)))"


section \<open>Zone transfer\<close>

definition axfr_records :: "zone \<Rightarrow> dns_record list" where
  "axfr_records z =
     (let soa = (case List.find is_soa (all_records z) of Some r \<Rightarrow> [r] | None \<Rightarrow> []) in
      soa @
      concat (map (\<lambda>owner. filter (\<lambda>r. \<not> is_soa r) (the (map_of z owner))) (sort (map fst z))) @
      soa)"

definition axfr_response :: "dns_packet \<Rightarrow> zone \<Rightarrow> dns_packet" where
  "axfr_response request z =
     (let rs = axfr_records z in
      \<lparr>header = \<lparr>h_id = h_id (header request),
         h_flags = 0x8000 OR (h_flags (header request) AND FLAG_RD) OR 0x0400,
         h_questions = 1, h_answers = of_nat (length rs), h_authorities = 0, h_additionals = 0\<rparr>,
       questions = questions request, answers = rs, authorities = [], additionals = []\<rparr>)"

definition try_axfr :: "env \<Rightarrow> bytes \<Rightarrow> ip_addr \<Rightarrow> 's server_state \<Rightarrow> bytes option io_result \<times> 's server_state" where
  "try_axfr e req ip st =
     (case from_bytes req of
        Err _ \<Rightarrow> (Ok None, st)
      | Panic \<Rightarrow> (Panic, st)
      | Ok request \<Rightarrow>
          (case questions request of
             [] \<Rightarrow> (Ok None, st)
           | q # _ \<Rightarrow>
               if qtype q \<noteq> TYPE_AXFR then (Ok None, st)
               else
                 let st1 = tally inc_total e st in
                 case is_allowed (s_axfr_acl st) ip of
                   Ok False \<Rightarrow> (Ok (Some (to_bytes (synth_response request [] 5))), tally inc_error e st1)
                 | Ok True \<Rightarrow>
                     (case zone_set_find (s_zones st) (to_lowercase (qname q)) of
                        None \<Rightarrow> (Ok (Some (to_bytes (synth_response request [] 3))), st1)
                      | Some z \<Rightarrow>
                          (Ok (Some (to_bytes (axfr_response request (records z)))), tally inc_authoritative e st1))
                 | _ \<Rightarrow> (Panic, st1)))"


section \<open>The first pass over a query\<close>

definition local_response :: "env \<Rightarrow> dns_packet \<Rightarrow> 's server_state \<Rightarrow> dns_packet io_result" where
  "local_response e request st =
     (let zs = s_zones st; resp = build_response request zs in
      case questions request of
        [] \<Rightarrow> Ok resp
      | q # _ \<Rightarrow>
          obind (case s_dnssec_keys st of
                   Some ks \<Rightarrow> apply_dnssec e resp zs (qname q) (qtype q) ks
                 | None \<Rightarrow> Ok resp) (\<lambda>resp1.
            Ok (case s_dns64_prefix st of
                  Some pfx \<Rightarrow> (if qtype q = TYPE_AAAA then apply_dns64 resp1 zs (qname q) pfx else resp1)
                | None \<Rightarrow> resp1)))"

definition sentinel :: socket_addr where
  "sentinel = SocketV4 0 0"

text \<open>An unknown name, with recursion wanted and offered: the cache, a rule, the recursive resolver.\<close>

definition unknown_name ::
    "env \<Rightarrow> bytes \<Rightarrow> dns_packet \<Rightarrow> dns_question \<Rightarrow> dns_packet \<Rightarrow> transport \<Rightarrow> 's server_state \<Rightarrow>
       resolution io_result \<times> 's server_state" where
  "unknown_name e req request q resp tr st =
     (let name = to_lowercase (qname q);
          (cached, c) = cache_get (cache_clock e) name (qtype q) (s_cache st);
          st1 = st\<lparr>s_cache := c\<rparr>;
          ctx = (\<lambda>up. \<lparr>ctx_request = request, ctx_raw = req, ctx_name = name, ctx_qtype = qtype q,
                   ctx_upstream = up, ctx_transport = tr\<rparr>)
      in case cached of
           Some raw \<Rightarrow> (obind (replay raw request tr) (\<lambda>bs. Ok (Ready bs)), tally inc_cache_hit e st1)
         | None \<Rightarrow>
             (case match_name (s_forward_rules st1) name of
                Some up \<Rightarrow> (Ok (Forward (ctx up)), st1)
              | None \<Rightarrow>
                  if s_recursive st1 \<noteq> None then (Ok (Forward (ctx sentinel)), st1)
                  else (Ok (Ready (encode_for resp tr)), tally inc_authoritative e st1)))"

definition local_answer ::
    "env \<Rightarrow> dns_packet \<Rightarrow> transport \<Rightarrow> 's server_state \<Rightarrow> resolution io_result \<times> 's server_state" where
  "local_answer e resp tr st =
     (Ok (Ready (encode_for (if recursion_available st
         then resp\<lparr>header := (header resp)\<lparr>h_flags := h_flags (header resp) OR FLAG_RA\<rparr>\<rparr> else resp) tr)),
      tally inc_authoritative e st)"

text \<open>The question to resolve elsewhere, if the first one is.\<close>

definition question_to_forward :: "dns_packet \<Rightarrow> 's server_state \<Rightarrow> dns_question option" where
  "question_to_forward request st =
     (let rcode = h_flags (header (build_response request (s_zones st))) AND 0x000F;
          rd_set = h_flags (header request) AND FLAG_RD \<noteq> 0
      in case questions request of
           q # _ \<Rightarrow> if rcode = RCODE_NXDOMAIN \<and> rd_set \<and> recursion_available st then Some q else None
         | [] \<Rightarrow> None)"

definition blocked_question :: "dns_packet \<Rightarrow> 's server_state \<Rightarrow> bool" where
  "blocked_question request st =
     (case questions request of
        q # _ \<Rightarrow> is_active (s_blocklist st) \<and> is_blocked (s_blocklist st) (qname q)
      | [] \<Rightarrow> False)"

definition resolve_local ::
    "env \<Rightarrow> bytes \<Rightarrow> ip_addr \<Rightarrow> transport \<Rightarrow> 's server_state \<Rightarrow> resolution io_result \<times> 's server_state" where
  "resolve_local e req ip tr st0 =
     (let st1 = tally inc_total e st0;
          (ok, lim) = allow (limiter_clock e) ip (s_limiter st1);
          st2 = st1\<lparr>s_limiter := lim\<rparr>
      in if \<not> ok then (Ok Drop, tally inc_rate_limited e st2)
         else case from_bytes req of
           Err _ \<Rightarrow> (Ok Drop, tally inc_error e st2)
         | Panic \<Rightarrow> (Panic, st2)
         | Ok request \<Rightarrow>
             if blocked_question request st2
             then (Ok (Ready (encode_for (synth_response request [] RCODE_NXDOMAIN) tr)), tally inc_blocked e st2)
             else
               (case local_response e request st2 of
                  Err x \<Rightarrow> (Err x, st2)
                | Panic \<Rightarrow> (Panic, st2)
                | Ok resp \<Rightarrow>
                    (case question_to_forward request st2 of
                       Some q \<Rightarrow> unknown_name e req request q resp tr st2
                     | None \<Rightarrow> local_answer e resp tr st2)))"


section \<open>Forwarding\<close>

definition is_sentinel :: "socket_addr \<Rightarrow> bool" where
  "is_sentinel a \<longleftrightarrow> a = SocketV4 0 0"

text \<open>What the network answers: the recursive resolver for the sentinel, else the chosen upstream.\<close>

definition upstream_result ::
    "env \<Rightarrow> ('s, 'w) net \<Rightarrow> forward_ctx \<Rightarrow> 's server_state \<Rightarrow> 'w \<Rightarrow> bytes io_result \<times> 's server_state \<times> 'w" where
  "upstream_result e net ctx st w =
     (if is_sentinel (ctx_upstream ctx) then
        (case s_recursive st of
           None \<Rightarrow> (Panic, st, w)
         | Some rr \<Rightarrow>
             (let (res, rr', w') = resolve net (ctx_name ctx) (ctx_qtype ctx) (h_id (header (ctx_request ctx))) rr w
              in (res, (tally inc_forwarded e st)\<lparr>s_recursive := Some rr'\<rparr>, w')))
      else
        (case s_forwarder st of
           None \<Rightarrow> (Panic, st, w)
         | Some mf \<Rightarrow>
             (let (res, mf', w') = multi_forward net (ctx_raw ctx) (ctx_upstream ctx) mf w
              in (res, (tally inc_forwarded e st)\<lparr>s_forwarder := Some mf'\<rparr>, w'))))"

definition forward_and_cache ::
    "env \<Rightarrow> ('s, 'w) net \<Rightarrow> forward_ctx \<Rightarrow> 's server_state \<Rightarrow> 'w \<Rightarrow> bytes io_result \<times> 's server_state \<times> 'w" where
  "forward_and_cache e net ctx st w =
     (case upstream_result e net ctx st w of
        (Ok response_bytes, st1, w1) \<Rightarrow>
          (case from_bytes response_bytes of
             Panic \<Rightarrow> (Panic, st1, w1)
           | Err _ \<Rightarrow> (Ok response_bytes, st1, w1)
           | Ok parsed \<Rightarrow>
               (case cache_ttl parsed of
                  Some t \<Rightarrow>
                    (Ok response_bytes,
                     st1\<lparr>s_cache := cache_insert (first_key e) (insert_clock e) (insert_clock' e)
                           (ctx_name ctx) (ctx_qtype ctx) response_bytes t (s_cache st1)\<rparr>, w1)
                | None \<Rightarrow> (Ok response_bytes, st1, w1)))
      | (Err _, st1, w1) \<Rightarrow>
          (Ok (to_bytes (synth_response (ctx_request ctx) [] RCODE_SERVFAIL)), tally inc_error e st1, w1)
      | (Panic, st1, w1) \<Rightarrow> (Panic, st1, w1))"

text \<open>
  \<^verbatim>\<open>forward_ctx\<close> by its two roles: the leader queries upstream, a follower is handed the leader's
  bytes (\<open>None\<close> when the leader vanished).
\<close>

definition leader_reply ::
    "env \<Rightarrow> ('s, 'w) net \<Rightarrow> forward_ctx \<Rightarrow> 's server_state \<Rightarrow> 'w \<Rightarrow> bytes io_result \<times> 's server_state \<times> 'w" where
  "leader_reply e net ctx st w =
     (let (raw, st1, w1) = forward_and_cache e net ctx st w
      in (obind raw (\<lambda>bs. replay bs (ctx_request ctx) (ctx_transport ctx)), st1, w1))"

definition follower_reply :: "bytes option \<Rightarrow> forward_ctx \<Rightarrow> bytes io_result" where
  "follower_reply shared ctx =
     (case shared of
        Some reply \<Rightarrow> replay reply (ctx_request ctx) (ctx_transport ctx)
      | None \<Rightarrow> replay (to_bytes (synth_response (ctx_request ctx) [] RCODE_SERVFAIL)) (ctx_request ctx) (ctx_transport ctx))"

text \<open>\<^verbatim>\<open>resolve\<close>, for a request no identical request is in flight with.\<close>

definition state_resolve ::
    "env \<Rightarrow> ('s, 'w) net \<Rightarrow> bytes \<Rightarrow> ip_addr \<Rightarrow> transport \<Rightarrow> 's server_state \<Rightarrow> 'w \<Rightarrow>
       bytes option io_result \<times> 's server_state \<times> 'w" where
  "state_resolve e net req ip tr st w =
     (case (if tr = Tcp then try_axfr e req ip st else (Ok None, st)) of
        (Ok (Some resp), st1) \<Rightarrow> (Ok (Some resp), st1, w)
      | (Err x, st1) \<Rightarrow> (Err x, st1, w)
      | (Panic, st1) \<Rightarrow> (Panic, st1, w)
      | (Ok None, st1) \<Rightarrow>
          (case resolve_local e req ip tr st1 of
             (Ok (Ready bs), st2) \<Rightarrow> (Ok (Some bs), st2, w)
           | (Ok Drop, st2) \<Rightarrow> (Ok None, st2, w)
           | (Ok (Forward ctx), st2) \<Rightarrow>
               (let (res, st3, w') = leader_reply e net ctx st2 w in (obind res (\<lambda>bs. Ok (Some bs)), st3, w'))
           | (Err x, st2) \<Rightarrow> (Err x, st2, w)
           | (Panic, st2) \<Rightarrow> (Panic, st2, w)))"

end
