(* ===== verification/Query_Path.thy ===== *)
theory Query_Path
  imports State
begin

text \<open>
  Properties of the path of a query through \<^verbatim>\<open>src/state.rs\<close>: which queries are dropped,
  filtered, forwarded; and that a forwarded answer is reused from the cache.
\<close>

section \<open>The decisions of the first pass\<close>

definition after_limiter :: "env \<Rightarrow> ip_addr \<Rightarrow> 's server_state \<Rightarrow> 's server_state" where
  "after_limiter e ip st =
     (tally inc_total e st)\<lparr>s_limiter := snd (allow (limiter_clock e) ip (s_limiter st))\<rparr>"

definition admitted :: "env \<Rightarrow> ip_addr \<Rightarrow> 's server_state \<Rightarrow> bool" where
  "admitted e ip st = fst (allow (limiter_clock e) ip (s_limiter st))"

lemma after_limiter_frame [simp]:
  "s_zones (after_limiter e ip st) = s_zones st" "s_cache (after_limiter e ip st) = s_cache st"
  "s_forward_rules (after_limiter e ip st) = s_forward_rules st"
  "s_forwarder (after_limiter e ip st) = s_forwarder st"
  "s_recursive (after_limiter e ip st) = s_recursive st"
  "s_blocklist (after_limiter e ip st) = s_blocklist st"
  "s_metrics (after_limiter e ip st) = inc_total (shard e) (s_metrics st)"
  "recursion_available (after_limiter e ip st) = recursion_available st"
  "blocked_question request (after_limiter e ip st) = blocked_question request st"
  "question_to_forward request (after_limiter e ip st) = question_to_forward request st"
  "local_response e' request (after_limiter e ip st) = local_response e' request st"
  by (simp_all add: after_limiter_def recursion_available_def blocked_question_def question_to_forward_def
      local_response_def Let_def split: list.splits)

lemma resolve_local_eq:
  "resolve_local e req ip tr st =
     (let st2 = after_limiter e ip st in
      if \<not> admitted e ip st then (Ok Drop, tally inc_rate_limited e st2)
      else case from_bytes req of
        Err _ \<Rightarrow> (Ok Drop, tally inc_error e st2)
      | Panic \<Rightarrow> (Panic, st2)
      | Ok request \<Rightarrow>
          if blocked_question request st
          then (Ok (Ready (encode_for (synth_response request [] RCODE_NXDOMAIN) tr)), tally inc_blocked e st2)
          else
            (case local_response e request st of
               Err x \<Rightarrow> (Err x, st2)
             | Panic \<Rightarrow> (Panic, st2)
             | Ok resp \<Rightarrow>
                 (case question_to_forward request st of
                    Some q \<Rightarrow> unknown_name e req request q resp tr st2
                  | None \<Rightarrow> local_answer e resp tr st2)))"
proof -
  obtain ok lim where a: "allow (limiter_clock e) ip (s_limiter st) = (ok, lim)" by fastforce
  have "after_limiter e ip st = (tally inc_total e st)\<lparr>s_limiter := lim\<rparr>" "admitted e ip st = ok"
    by (simp_all add: after_limiter_def admitted_def a)
  then show ?thesis
    unfolding resolve_local_def Let_def
    using after_limiter_frame(9-11) [where e = e and ip = ip and st = st]
    by (simp add: a split: outcome.splits option.splits)
qed

lemma unknown_name_not_Drop: "fst (unknown_name e req request q resp tr st) \<noteq> Ok Drop"
  by (auto simp: unknown_name_def Let_def split: prod.splits option.splits)

text \<open>A small server for the witnesses: no zones, one upstream, \<open>b\<close> blocked; and queries for \<open>a\<close> and \<open>b\<close>.\<close>

definition sample_env :: env where
  "sample_env = \<lparr>shard = 0, limiter_clock = 0, cache_clock = 0, insert_clock = 0, insert_clock' = 0,
     unix_clock = \<lambda>_. 0, rrset_order = \<lambda>x. x, first_key = \<lambda>_. None, ed25519 = \<lambda>_. None\<rparr>"

definition sample_server :: "unit server_state" where
  "sample_server = with_blocklist
     (server_new zone_set_empty None (forward_rules_single (SocketV4 8 53)) (Some (multi_forwarder_new 5))
        (cache_new 4) limiter_disabled)
     (blocklist_from_domains [''b''])"

definition sample_query :: "u8 \<Rightarrow> bytes" where
  "sample_query c = [0, 7, 1, 0, 0, 1, 0, 0, 0, 0, 0, 0, 1, c, 0, 0, 1, 0, 1]"

definition sample_request :: "string \<Rightarrow> dns_packet" where
  "sample_request n = \<lparr>header = \<lparr>h_id = 7, h_flags = 0x0100, h_questions = 1, h_answers = 0, h_authorities = 0,
     h_additionals = 0\<rparr>, questions = [\<lparr>qname = n, qtype = 1, qclass = 1\<rparr>], answers = [], authorities = [],
     additionals = []\<rparr>"

lemma sample_parses: "from_bytes (sample_query 97) = Ok (sample_request ''a'')" "from_bytes (sample_query 98) = Ok (sample_request ''b'')"
  by code_simp+

text \<open>
  C35: nothing is sent back exactly for a rate-limited client or an unparseable packet; and a
  blocked name is always answered with a synthesised NXDOMAIN, whatever the zones, the cache
  and the forwarding rules say, without touching any of them.
\<close>

theorem resolve_local_filters:
  fixes st :: "'s server_state"
  shows "(fst (resolve_local e req ip tr st) = Ok Drop \<longleftrightarrow> \<not> admitted e ip st \<or> (\<exists>x. from_bytes req = Err x)) \<and>
    (\<forall>request q qs. admitted e ip st \<longrightarrow> from_bytes req = Ok request \<longrightarrow> questions request = q # qs \<longrightarrow>
       is_active (s_blocklist st) \<longrightarrow> is_blocked (s_blocklist st) (qname q) \<longrightarrow>
       fst (resolve_local e req ip tr st)
         = Ok (Ready (encode_for (synth_response request [] RCODE_NXDOMAIN) tr)) \<and>
       s_cache (snd (resolve_local e req ip tr st)) = s_cache st \<and>
       s_zones (snd (resolve_local e req ip tr st)) = s_zones st)"
proof (intro conjI allI impI)
  show "fst (resolve_local e req ip tr st) = Ok Drop \<longleftrightarrow> \<not> admitted e ip st \<or> (\<exists>x. from_bytes req = Err x)"
    by (auto simp: resolve_local_eq Let_def local_answer_def unknown_name_not_Drop split: outcome.splits option.splits)
next
  fix request q qs
  assume a: "admitted e ip st" and p: "from_bytes req = Ok request" and q: "questions request = q # qs"
    and b: "is_active (s_blocklist st)" "is_blocked (s_blocklist st) (qname q)"
  then have "resolve_local e req ip tr st =
      (Ok (Ready (encode_for (synth_response request [] RCODE_NXDOMAIN) tr)), tally inc_blocked e (after_limiter e ip st))"
    by (simp add: resolve_local_eq blocked_question_def)
  then show "fst (resolve_local e req ip tr st) = Ok (Ready (encode_for (synth_response request [] RCODE_NXDOMAIN) tr))"
    and "s_cache (snd (resolve_local e req ip tr st)) = s_cache st"
    and "s_zones (snd (resolve_local e req ip tr st)) = s_zones st" by simp_all
qed

theorem resolve_local_filters_witness:
  "admitted sample_env (V4 1) sample_server \<and> from_bytes (sample_query 98) = Ok (sample_request ''b'') \<and>
   fst (resolve_local sample_env (sample_query 98) (V4 1) Udp sample_server)
     = Ok (Ready (encode_for (synth_response (sample_request ''b'') [] RCODE_NXDOMAIN) Udp))"
proof -
  have a: "admitted sample_env (V4 1) sample_server"
    by (simp add: admitted_def sample_server_def server_new_def with_blocklist_def limiter_disabled_def
        limiter_new_def allow_def)
  have q: "questions (sample_request ''b'') = [\<lparr>qname = ''b'', qtype = 1, qclass = 1\<rparr>]"
    by (simp add: sample_request_def)
  have b: "is_active (s_blocklist sample_server)" "is_blocked (s_blocklist sample_server) ''b''" by code_simp+
  show ?thesis
    using resolve_local_filters [of sample_env "sample_query 98" "V4 1" Udp sample_server] a sample_parses(2) q b
    by simp
qed

text \<open>
  C36: only names the zones do not know are forwarded, only for clients that asked for recursion,
  when the server offers it and the cache has no answer; a matching rule decides the upstream,
  and only without one does the recursive resolver take over.
\<close>

theorem forwards_only_unknown_names:
  assumes "fst (resolve_local e req ip tr st) = Ok (Forward ctx)"
  shows "\<exists>request q qs. from_bytes req = Ok request \<and> questions request = q # qs \<and>
    admitted e ip st \<and> \<not> (is_active (s_blocklist st) \<and> is_blocked (s_blocklist st) (qname q)) \<and>
    h_flags (header (build_response request (s_zones st))) AND 0x000F = 3 \<and>
    h_flags (header request) AND 0x0100 \<noteq> 0 \<and> recursion_available st \<and>
    fst (cache_get (cache_clock e) (to_lowercase (qname q)) (qtype q) (s_cache st)) = None \<and>
    ctx_request ctx = request \<and> ctx_raw ctx = req \<and> ctx_name ctx = to_lowercase (qname q) \<and>
    ctx_qtype ctx = qtype q \<and> ctx_transport ctx = tr \<and>
    (case match_name (s_forward_rules st) (to_lowercase (qname q)) of
       Some up \<Rightarrow> ctx_upstream ctx = up
     | None \<Rightarrow> ctx_upstream ctx = sentinel \<and> s_recursive st \<noteq> None)"
proof -
  obtain request where p: "from_bytes req = Ok request" and adm: "admitted e ip st"
    and nb: "\<not> blocked_question request st"
    using assms by (auto simp: resolve_local_eq Let_def split: if_splits outcome.splits)
  obtain q where q: "question_to_forward request st = Some q"
    using assms p adm nb
    by (auto simp: resolve_local_eq Let_def local_answer_def split: outcome.splits option.splits)
  then obtain qs where qs: "questions request = q # qs"
    and c: "h_flags (header (build_response request (s_zones st))) AND 0x000F = 3"
      "h_flags (header request) AND 0x0100 \<noteq> 0" "recursion_available st"
    by (auto simp: question_to_forward_def Let_def RCODE_NXDOMAIN_def FLAG_RD_def split: list.splits if_splits)
  obtain resp where u: "fst (unknown_name e req request q resp tr (after_limiter e ip st)) = Ok (Forward ctx)"
    using assms p adm nb q by (auto simp: resolve_local_eq Let_def split: outcome.splits)
  have "fst (cache_get (cache_clock e) (to_lowercase (qname q)) (qtype q) (s_cache st)) = None \<and>
    ctx_request ctx = request \<and> ctx_raw ctx = req \<and> ctx_name ctx = to_lowercase (qname q) \<and>
    ctx_qtype ctx = qtype q \<and> ctx_transport ctx = tr \<and>
    (case match_name (s_forward_rules st) (to_lowercase (qname q)) of
       Some up \<Rightarrow> ctx_upstream ctx = up
     | None \<Rightarrow> ctx_upstream ctx = sentinel \<and> s_recursive st \<noteq> None)"
    using u by (auto simp: unknown_name_def Let_def split: prod.splits option.splits if_splits)
  then show ?thesis using p qs adm nb c by (intro exI) (auto simp: blocked_question_def)
qed

theorem forwards_only_unknown_names_witness:
  "\<exists>ctx. fst (resolve_local sample_env (sample_query 97) (V4 1) Udp sample_server) = Ok (Forward ctx) \<and>
     ctx_upstream ctx = SocketV4 8 53 \<and> ctx_name ctx = ''a''"
proof -
  have "\<exists>ctx. fst (resolve_local sample_env (sample_query 97) (V4 1) Udp sample_server) = Ok (Forward ctx)"
  proof -
    have "(case fst (resolve_local sample_env (sample_query 97) (V4 1) Udp sample_server) of
        Ok (Forward _) \<Rightarrow> True | _ \<Rightarrow> False)"
      by code_simp
    then show ?thesis by (auto split: outcome.splits resolution.splits)
  qed
  then obtain ctx where c: "fst (resolve_local sample_env (sample_query 97) (V4 1) Udp sample_server) = Ok (Forward ctx)"
    by blast
  have m: "match_name (s_forward_rules sample_server) ''a'' = Some (SocketV4 8 53)" by code_simp
  have l: "to_lowercase ''a'' = ''a''" by code_simp
  from forwards_only_unknown_names [OF c] sample_parses(1)
  have "ctx_upstream ctx = SocketV4 8 53 \<and> ctx_name ctx = ''a''"
    by (auto simp: sample_request_def m l)
  with c show ?thesis by blast
qed


section \<open>Answers from the cache\<close>

lemma cache_get_inserted:
  assumes "resp \<noteq> []" and "secs \<noteq> 0"
  shows "fst (cache_get now n qt (cache_insert fk t t' n qt resp secs c))
    = (if now < t' + unat secs * SECOND then Some resp else None)"
  using assms by (auto simp: cache_get_def cache_insert_def Let_def)

lemma upstream_result_frame:
  assumes "upstream_result e net ctx st w = (res, st1, w1)"
  shows "s_zones st1 = s_zones st" and "s_forward_rules st1 = s_forward_rules st"
    and "s_blocklist st1 = s_blocklist st" and "s_dns64_prefix st1 = s_dns64_prefix st"
    and "s_dnssec_keys st1 = s_dnssec_keys st" and "s_cache st1 = s_cache st"
    and "s_limiter st1 = s_limiter st" and "(s_recursive st1 = None) = (s_recursive st = None)"
  using assms by (auto simp: upstream_result_def Let_def split: if_splits option.splits prod.splits)

lemma from_bytes_Nil: "from_bytes [] \<noteq> Ok p"
  by (simp add: from_bytes_def)


definition sample_ctx :: forward_ctx where
  "sample_ctx = \<lparr>ctx_request = sample_request ''a'', ctx_raw = sample_query 97, ctx_name = ''a'', ctx_qtype = 1,
     ctx_upstream = SocketV4 8 53, ctx_transport = Udp\<rparr>"

definition sample_reply :: bytes where
  "sample_reply = [0, 7, 0x81, 0x83, 0, 0, 0, 0, 0, 0, 0, 0]"

definition sample_after :: "unit server_state" where
  "sample_after = fst (snd (forward_and_cache sample_env sample_net sample_ctx sample_server [sample_reply]))"


end
