(* ===== verification/Replay.thy ===== *)
theory Replay
  imports State
begin

text \<open>
  Properties of the response handling of \<^verbatim>\<open>src/state.rs\<close>: what \<^verbatim>\<open>replay\<close> makes of a cached or
  forwarded message for the client at hand, and how long \<^verbatim>\<open>cache_ttl\<close> lets it live.
\<close>

section \<open>The transaction identifier\<close>

lemma encode_header_buf:
  "buf (encode_header p enc) = buf enc @ be_bytes 2 (h_id (header p)) @ be_bytes 2 (h_flags (header p)) @
     be_bytes 2 (of_nat (length (questions p)) :: u16) @ be_bytes 2 (of_nat (length (answers p)) :: u16) @
     be_bytes 2 (of_nat (length (authorities p)) :: u16) @ be_bytes 2 (of_nat (length (additionals p)) :: u16)"
  by (simp add: encode_header_def)

lemma to_bytes_header:
  "\<exists>ext. to_bytes p = be_bytes 2 (h_id (header p)) @ be_bytes 2 (h_flags (header p)) @
     be_bytes 2 (of_nat (length (questions p)) :: u16) @ be_bytes 2 (of_nat (length (answers p)) :: u16) @
     be_bytes 2 (of_nat (length (authorities p)) :: u16) @ be_bytes 2 (of_nat (length (additionals p)) :: u16) @ ext"
proof -
  let ?h = "encode_header p \<lparr>buf = [], name_offsets = Map.empty\<rparr>"
  have rec: "appender (fold encode_record rs)" for rs by (rule appender_fold) (rule appender_encode_record)
  have qs: "appender (fold encode_question q)" for q by (rule appender_fold) (rule appender_encode_question)
  obtain x1 where "buf (fold encode_question (questions p) ?h) = buf ?h @ x1" by (rule appender_buf [OF qs])
  moreover obtain x2 where "buf (fold encode_record (answers p) (fold encode_question (questions p) ?h))
      = buf (fold encode_question (questions p) ?h) @ x2" by (rule appender_buf [OF rec])
  moreover obtain x3 where "buf (fold encode_record (authorities p) (fold encode_record (answers p)
      (fold encode_question (questions p) ?h)))
      = buf (fold encode_record (answers p) (fold encode_question (questions p) ?h)) @ x3"
    by (rule appender_buf [OF rec])
  moreover obtain x4 where "buf (encode p \<lparr>buf = [], name_offsets = Map.empty\<rparr>)
      = buf (fold encode_record (authorities p) (fold encode_record (answers p)
         (fold encode_question (questions p) ?h))) @ x4"
    unfolding encode_def by (rule appender_buf [OF rec])
  ultimately show ?thesis unfolding to_bytes_def by (simp add: encode_header_buf)
qed

lemma to_bytes_id: "take 2 (to_bytes p) = be_bytes 2 (h_id (header p))"
  using to_bytes_header [of p] by auto

lemma to_udp_bytes_id: "take 2 (to_udp_bytes p) = be_bytes 2 (h_id (header p))"
  by (simp add: to_udp_bytes_def Let_def to_bytes_id truncate_packet_def)


section \<open>EDNS\<close>

lemma replace_opt_None: "replace_opt n rs = None \<longleftrightarrow> (\<forall>r \<in> set rs. \<not> is_opt r)"
  by (induction rs) auto

lemma replace_opt_size: "replace_opt n rs = Some rs' \<Longrightarrow> find_map opt_size rs' = Some n"
proof (induction rs arbitrary: rs')
  case (Cons r rs)
  then show ?case by (cases "is_opt r") (auto simp flip: opt_size_None_iff)
qed simp

lemma replace_opt_rest: "replace_opt n rs = Some rs' \<Longrightarrow> filter (\<lambda>r. \<not> is_opt r) rs' = filter (\<lambda>r. \<not> is_opt r) rs"
  by (induction rs arbitrary: rs') (auto split: if_splits)

lemma find_map_append: "find_map f (xs @ ys) = (case find_map f xs of None \<Rightarrow> find_map f ys | Some y \<Rightarrow> Some y)"
  by (induction xs) (auto split: option.splits)

lemma find_map_no_opt: "(\<forall>r \<in> set rs. \<not> is_opt r) \<Longrightarrow> find_map opt_size rs = None"
  by (simp add: find_map_None_iff opt_size_None_iff)

lemma align_edns_size:
  "edns_udp_size (align_edns p request)
     = map_option (\<lambda>s. clamp_u16 s (of_nat MAX_UDP_SIZE) (of_nat MAX_EDNS_UDP)) (edns_udp_size request)"
  unfolding align_edns_def edns_udp_size_def Let_def
  by (auto simp: replace_opt_size replace_opt_None find_map_append find_map_no_opt split: option.splits)

lemma align_edns_rest:
  "filter (\<lambda>r. \<not> is_opt r) (additionals (align_edns p request)) = filter (\<lambda>r. \<not> is_opt r) (additionals p)"
  by (auto simp: align_edns_def Let_def replace_opt_rest split: option.splits)

lemma align_edns_sections:
  "header (align_edns p request) = header p" "questions (align_edns p request) = questions p"
  "answers (align_edns p request) = answers p" "authorities (align_edns p request) = authorities p"
  by (simp_all add: align_edns_def Let_def split: option.splits)

lemma clamp_clamp_u16: "clamp (unat (clamp_u16 s 512 1232)) 512 1232 = clamp (unat s) 512 1232"
  by (auto simp: clamp_def clamp_u16_def word_less_nat_alt)

lemma udp_limit_align_edns: "udp_limit (align_edns p request) = udp_limit request"
  by (auto simp: udp_limit_def align_edns_size MAX_UDP_SIZE_def MAX_EDNS_UDP_def clamp_clamp_u16 split: option.splits)


section \<open>Replaying\<close>


definition small_reply :: bytes where
  "small_reply = [0, 1, 0x81, 0x80, 0, 0, 0, 0, 0, 0, 0, 0]"

definition small_request :: dns_packet where
  "small_request = \<lparr>header = \<lparr>h_id = 0x0707, h_flags = 0x0100, h_questions = 0, h_answers = 0, h_authorities = 0,
     h_additionals = 0\<rparr>, questions = [], answers = [], authorities = [], additionals = []\<rparr>"



section \<open>Time to live\<close>

lemma fold_min_ttl:
  "fold (\<lambda>x m. min m (ttl x)) rs m \<le> m \<and> (\<forall>r \<in> set rs. fold (\<lambda>x m. min m (ttl x)) rs m \<le> ttl r) \<and>
   (fold (\<lambda>x m. min m (ttl x)) rs m = m \<or> (\<exists>r \<in> set rs. fold (\<lambda>x m. min m (ttl x)) rs m = ttl r))"
proof (induction rs arbitrary: m)
  case (Cons r rs)
  show ?case using Cons [of "min m (ttl r)"] by (auto simp: min_def split: if_splits)
qed simp

lemma min_ttl_least:
  "min_ttl rs = Some t \<Longrightarrow> (\<forall>r \<in> set rs. t \<le> ttl r) \<and> (\<exists>r \<in> set rs. t = ttl r)"
  using fold_min_ttl by (cases rs) fastforce+

lemma min_ttl_None: "min_ttl rs = None \<longleftrightarrow> rs = []"
  by (cases rs) auto

text \<open>
  How long a response may be served from the cache: with answers, exactly the least time to
  live among them; without, only for NXDOMAIN or NOERROR, and then at most an hour, taken from
  the SOA record or half a minute.
\<close>

theorem cache_ttl_sound:
  assumes "cache_ttl p = Some t"
  shows "if answers p \<noteq> [] then (\<forall>r \<in> set (answers p). t \<le> ttl r) \<and> (\<exists>r \<in> set (answers p). t = ttl r)
    else h_flags (header p) AND 0x000F \<in> {0, 3} \<and> t \<le> 3600 \<and>
      ((\<forall>r \<in> set (authorities p). \<not> is_soa r) \<longrightarrow> t = 30)"
proof -
  have soa: "soa_minimum r = None \<longleftrightarrow> \<not> is_soa r" for r by (cases r) auto
  have none: "(\<forall>r \<in> set rs. \<not> is_soa r) \<longleftrightarrow> find_map soa_minimum rs = None" for rs
    by (simp add: find_map_None_iff soa)
  show ?thesis
    using assms unfolding none
    by (auto simp: cache_ttl_def Let_def RCODE_NXDOMAIN_def NEG_TTL_MAX_def NEG_TTL_DEFAULT_def min_ttl_None
        split: option.splits if_splits dest: min_ttl_least)
qed

theorem cache_ttl_sound_witness:
  "cache_ttl (small_request\<lparr>answers := [A ''a'' 1 60, A ''a'' 2 20]\<rparr>) = Some 20 \<and>
   (\<exists>r \<in> set (answers (small_request\<lparr>answers := [A ''a'' 1 60, A ''a'' 2 20]\<rparr>)). (20 :: u32) = ttl r)"
proof -
  let ?p = "small_request\<lparr>answers := [A ''a'' 1 60, A ''a'' 2 20]\<rparr>"
  have c: "cache_ttl ?p = Some 20" by (simp add: cache_ttl_def)
  have ne: "answers ?p \<noteq> []" by simp
  show ?thesis by (rule conjI [OF c cache_ttl_sound [OF c, unfolded if_P [OF ne], THEN conjunct2]])
qed

end
