(* ===== verification/Startup.thy ===== *)
theory Startup
  imports State
begin

text \<open>
  Starting the server: the command line and \<^verbatim>\<open>run_server\<close> of \<^verbatim>\<open>src/main.rs\<close> up to the call of
  \<^verbatim>\<open>server::run\<close>, and the certificates of \<^verbatim>\<open>src/tls.rs\<close>.  The file system, the TOML parser, the
  key generator and the TLS library are parameters.
\<close>

section \<open>TLS assets\<close>

text \<open>
  What is used of the TLS library: reading certificates and a private key from PEM text, a
  generated pair for \<open>localhost\<close>, and a configuration for a chain and its key.  \<open>None\<close> is an error,
  and \<open>Some None\<close> a key file without a key.
\<close>

record ('cert, 'key, 'cfg) tls_library =
  read_bytes :: "string \<Rightarrow> bytes option"
  pem_certs :: "bytes \<Rightarrow> 'cert list option"
  pem_private_key :: "bytes \<Rightarrow> 'key option option"
  self_signed_pair :: "('cert \<times> 'key) option"
  protocol_versions :: bool
  single_cert :: "'cert list \<Rightarrow> 'key \<Rightarrow> 'cfg option"

record ('cert, 'cfg) tls_assets =
  ta_config :: "'cfg \<times> bytes list"
  ta_cert_der :: 'cert

definition load_pem ::
    "('cert, 'key, 'cfg) tls_library \<Rightarrow> string \<Rightarrow> string \<Rightarrow> ('cert list \<times> 'key) io_result" where
  "load_pem lib cert_path key_path =
     (case read_bytes lib cert_path of
        None \<Rightarrow> Err (''reading '' @ cert_path)
      | Some cert_pem \<Rightarrow>
          (case pem_certs lib cert_pem of
             None \<Rightarrow> Err ''parsing certificate PEM''
           | Some certs \<Rightarrow>
               if certs = [] then Err (''no certificates in '' @ cert_path)
               else (case read_bytes lib key_path of
                       None \<Rightarrow> Err (''reading '' @ key_path)
                     | Some key_pem \<Rightarrow>
                         (case pem_private_key lib key_pem of
                            None \<Rightarrow> Err ''parsing private key PEM''
                          | Some None \<Rightarrow> Err (''no private key in '' @ key_path)
                          | Some (Some key) \<Rightarrow> Ok (certs, key)))))"

definition generate_self_signed :: "('cert, 'key, 'cfg) tls_library \<Rightarrow> ('cert list \<times> 'key) io_result" where
  "generate_self_signed lib =
     (case self_signed_pair lib of
        None \<Rightarrow> Err ''generating self-signed certificate''
      | Some (cert, key) \<Rightarrow> Ok ([cert], key))"

definition tls_build ::
    "('cert, 'key, 'cfg) tls_library \<Rightarrow> string option \<Rightarrow> string option \<Rightarrow> bytes list \<Rightarrow>
       ('cert, 'cfg) tls_assets io_result" where
  "tls_build lib cert_path key_path alpn =
     obind (case (cert_path, key_path) of
              (Some c, Some k) \<Rightarrow> load_pem lib c k
            | _ \<Rightarrow> generate_self_signed lib) (\<lambda>(certs, key).
     (case certs of
        [] \<Rightarrow> Err ''no certificate found''
      | cert # _ \<Rightarrow>
          if \<not> protocol_versions lib then Err ''failed to set TLS protocol versions''
          else (case single_cert lib certs key of
                  None \<Rightarrow> Err ''invalid certificate/key pair''
                | Some cfg \<Rightarrow> Ok \<lparr>ta_config = (cfg, alpn), ta_cert_der = cert\<rparr>)))"


section \<open>The command line\<close>

record args =
  arg_config :: "string option"
  arg_zone :: string
  arg_addr :: string
  arg_upstream :: string
  arg_no_recurse :: bool
  arg_rate_limit :: u32
  arg_cache_size :: nat
  arg_dot_addr :: "string option"
  arg_doh_addr :: "string option"
  arg_doq_addr :: "string option"
  arg_tls_cert :: "string option"
  arg_tls_key :: "string option"
  arg_metrics_addr :: "string option"

definition parse_upstream :: "string \<Rightarrow> (config_error, socket_addr) outcome" where
  "parse_upstream s =
     (case parse_socket_addr s of
        Some a \<Rightarrow> Ok a
      | None \<Rightarrow> or_err (InvalidUpstream s) (parse_socket_addr (s @ '':53'')))"


section \<open>The parts of the server\<close>

definition startup_settings ::
    "reader_of_files \<Rightarrow> (string \<Rightarrow> settings option) \<Rightarrow> args \<Rightarrow> (config_error, settings option) outcome" where
  "startup_settings read_file toml a =
     (case arg_config a of
        Some p \<Rightarrow> obind (load_settings read_file toml p) (\<lambda>s. Ok (Some s))
      | None \<Rightarrow> Ok None)"

definition startup_zones ::
    "reader_of_files \<Rightarrow> args \<Rightarrow> settings option \<Rightarrow> (config_error, zone_set \<times> string option) outcome" where
  "startup_zones read_file a cfg =
     (case cfg of
        Some s \<Rightarrow> obind (load_zones_from_settings read_file s) (\<lambda>z. Ok (z, arg_config a))
      | None \<Rightarrow>
          obind (load_zone_with_inferred_origin read_file (arg_zone a)) (\<lambda>az.
            Ok (zone_set_from_single (origin az) (records az), Some (arg_zone a))))"

definition recursive_mode :: "settings option \<Rightarrow> bool" where
  "recursive_mode cfg =
     (case cfg of
        Some s \<Rightarrow> (case st_upstream s of Some u \<Rightarrow> us_recursive u | None \<Rightarrow> False)
      | None \<Rightarrow> False)"

definition upstream_timeout :: "settings option \<Rightarrow> nat" where
  "upstream_timeout cfg =
     (case cfg of
        Some s \<Rightarrow>
          (case st_upstream s of
             Some u \<Rightarrow> (case us_timeout_secs u of Some t \<Rightarrow> unat t | None \<Rightarrow> 5)
           | None \<Rightarrow> 5)
      | None \<Rightarrow> 5)"

definition startup_forwarding ::
    "args \<Rightarrow> settings option \<Rightarrow> (config_error, socket_addr forward_rules \<times> 's multi_forwarder option) outcome" where
  "startup_forwarding a cfg =
     (if arg_no_recurse a then Ok (forward_rules_none, None)
      else
        obind (case cfg of Some s \<Rightarrow> forward_rules_from_settings s | None \<Rightarrow> Ok forward_rules_none) (\<lambda>rs.
        obind (parse_upstream (arg_upstream a)) (\<lambda>cli_upstream.
          Ok (if recursive_mode cfg then forward_rules_new None (rules rs) else with_default rs cli_upstream,
              Some (multi_forwarder_new (upstream_timeout cfg * SECOND))))))"

definition startup_limiter :: "args \<Rightarrow> rate_limiter" where
  "startup_limiter a =
     (if arg_rate_limit a = 0 then limiter_disabled else limiter_new (arg_rate_limit a) SECOND)"

definition startup_blocklist :: "reader_of_files \<Rightarrow> settings option \<Rightarrow> blocklist" where
  "startup_blocklist read_file cfg =
     (case cfg of
        Some s \<Rightarrow>
          (case st_blocklist s of
             Some file \<Rightarrow> (case blocklist_from_file read_file file of Some bl \<Rightarrow> bl | None \<Rightarrow> blocklist_empty)
           | None \<Rightarrow> blocklist_empty)
      | None \<Rightarrow> blocklist_empty)"

definition startup_dns64 :: "settings option \<Rightarrow> ipv6 option" where
  "startup_dns64 cfg =
     (case cfg of
        Some s \<Rightarrow>
          (case st_dns64 s of
             Some d64 \<Rightarrow> (case d64 of Some p \<Rightarrow> parse_ipv6 p | None \<Rightarrow> None)
           | None \<Rightarrow> None)
      | None \<Rightarrow> None)"

definition startup_axfr_acl :: "settings option \<Rightarrow> acl" where
  "startup_axfr_acl cfg =
     (case cfg of
        Some s \<Rightarrow>
          (case st_axfr s of
             Some specs \<Rightarrow> (case acl_parse specs of Ok a \<Rightarrow> a | _ \<Rightarrow> deny_all)
           | None \<Rightarrow> deny_all)
      | None \<Rightarrow> deny_all)"

definition startup_dnssec :: "dnssec_keys sign_result \<Rightarrow> settings option \<Rightarrow> 's server_state \<Rightarrow> 's server_state" where
  "startup_dnssec keys cfg st =
     (case cfg of
        Some s \<Rightarrow>
          (case st_dnssec s of
             Some enabled \<Rightarrow>
               if enabled then (case keys of Ok ks \<Rightarrow> with_dnssec st ks | _ \<Rightarrow> st) else st
           | None \<Rightarrow> st)
      | None \<Rightarrow> st)"


section \<open>The server\<close>

text \<open>What \<^verbatim>\<open>run_server\<close> reads: files, the TOML parser, and the pair of \<^verbatim>\<open>ring\<close> operations of key generation.\<close>

record startup_env =
  se_files :: reader_of_files
  se_toml :: "string \<Rightarrow> settings option"
  se_pkcs8 :: "bytes option"
  se_public_key_of :: "bytes \<Rightarrow> bytes option"

definition build_state :: "startup_env \<Rightarrow> args \<Rightarrow> settings option \<Rightarrow> (config_error, 's server_state) outcome" where
  "build_state env a cfg =
     obind (startup_zones (se_files env) a cfg) (\<lambda>(zs, zone_path).
     obind (startup_forwarding a cfg) (\<lambda>(frules, fwd).
       let bl = startup_blocklist (se_files env) cfg;
           st0 = server_new zs zone_path frules fwd (cache_new (arg_cache_size a)) (startup_limiter a);
           st1 = (if is_active bl then with_blocklist st0 bl else st0);
           st2 = (case startup_dns64 cfg of Some pfx \<Rightarrow> with_dns64 st1 pfx | None \<Rightarrow> st1);
           st3 = with_axfr_acl st2 (startup_axfr_acl cfg);
           st4 = (if recursive_mode cfg then with_recursive st3 else st3)
       in Ok (startup_dnssec (dnssec_single (se_pkcs8 env) (se_public_key_of env) ''example.com'') cfg st4)))"

record 'cfg tls_options =
  to_config :: "'cfg \<times> bytes list"
  to_dot_addr :: "string option"
  to_doh_addr :: "string option"
  to_doq_addr :: "string option"

text \<open>\<^verbatim>\<open>args.x.or_else(|| settings.tls.x)\<close>\<close>

definition or_tls :: "string option \<Rightarrow> (tls_settings \<Rightarrow> string option) \<Rightarrow> settings option \<Rightarrow> string option" where
  "or_tls given field cfg =
     (case given of
        Some x \<Rightarrow> Some x
      | None \<Rightarrow>
          (case cfg of
             Some s \<Rightarrow> (case st_tls s of Some t \<Rightarrow> field t | None \<Rightarrow> None)
           | None \<Rightarrow> None))"

definition startup_tls ::
    "('cert, 'key, 'cfg) tls_library \<Rightarrow> args \<Rightarrow> settings option \<Rightarrow> 'cfg tls_options option io_result" where
  "startup_tls lib a cfg =
     (let dot_addr = or_tls (arg_dot_addr a) ts_dot_addr cfg;
          doh_addr = or_tls (arg_doh_addr a) ts_doh_addr cfg;
          doq_addr = or_tls (arg_doq_addr a) ts_doq_addr cfg;
          tls_cert = or_tls (arg_tls_cert a) ts_cert cfg;
          tls_key = or_tls (arg_tls_key a) ts_key cfg
      in if dot_addr \<noteq> None \<or> doh_addr \<noteq> None \<or> doq_addr \<noteq> None then
           obind (tls_build lib tls_cert tls_key [str_bytes ''dot'', str_bytes ''h2'', str_bytes ''http/1.1'']) (\<lambda>assets.
             Ok (Some \<lparr>to_config = ta_config assets, to_dot_addr = dot_addr, to_doh_addr = doh_addr,
                       to_doq_addr = doq_addr\<rparr>))
         else Ok None)"

definition startup_metrics_addr :: "args \<Rightarrow> settings option \<Rightarrow> string option" where
  "startup_metrics_addr a cfg =
     (case arg_metrics_addr a of
        Some x \<Rightarrow> Some x
      | None \<Rightarrow>
          (case cfg of
             Some s \<Rightarrow> (case st_metrics s of Some m \<Rightarrow> m | None \<Rightarrow> None)
           | None \<Rightarrow> None))"

datatype startup_error = Config config_error | Tls string

definition as_error :: "('e \<Rightarrow> 'f) \<Rightarrow> ('e, 'a) outcome \<Rightarrow> ('f, 'a) outcome" where
  "as_error f r = (case r of Ok x \<Rightarrow> Ok x | Err e \<Rightarrow> Err (f e) | Panic \<Rightarrow> Panic)"

text \<open>The arguments \<^verbatim>\<open>run_server\<close> calls \<^verbatim>\<open>server::run\<close> with: state, address, TLS options, metrics address.\<close>

definition run_server ::
    "startup_env \<Rightarrow> ('cert, 'key, 'cfg) tls_library \<Rightarrow> args \<Rightarrow>
       (startup_error, 's server_state \<times> string \<times> 'cfg tls_options option \<times> string option) outcome" where
  "run_server env lib a =
     obind (as_error Config (startup_settings (se_files env) (se_toml env) a)) (\<lambda>cfg.
     obind (as_error Config (build_state env a cfg)) (\<lambda>st.
     obind (as_error Tls (startup_tls lib a cfg)) (\<lambda>tls.
       Ok (st, arg_addr a, tls, startup_metrics_addr a cfg))))"



section \<open>Properties\<close>

lemma as_error_Ok [simp]: "as_error f r = Ok x \<longleftrightarrow> r = Ok x"
  by (cases r) (simp_all add: as_error_def)

lemma run_server_Ok:
  assumes "run_server env lib a = Ok (st, addr, tls, maddr)"
  obtains cfg where "startup_settings (se_files env) (se_toml env) a = Ok cfg" and "build_state env a cfg = Ok st"
    and "startup_tls lib a cfg = Ok tls"
  using assms by (auto simp: run_server_def obind_eq_Ok)

lemma startup_dnssec_frame [simp]:
  "s_zones (startup_dnssec ks cfg st) = s_zones st" "s_forward_rules (startup_dnssec ks cfg st) = s_forward_rules st"
  "s_forwarder (startup_dnssec ks cfg st) = s_forwarder st" "s_recursive (startup_dnssec ks cfg st) = s_recursive st"
  "s_cache (startup_dnssec ks cfg st) = s_cache st" "s_limiter (startup_dnssec ks cfg st) = s_limiter st"
  "s_blocklist (startup_dnssec ks cfg st) = s_blocklist st" "s_axfr_acl (startup_dnssec ks cfg st) = s_axfr_acl st"
  "s_metrics (startup_dnssec ks cfg st) = s_metrics st"
  by (simp_all add: startup_dnssec_def with_dnssec_def split: option.split outcome.split)

text \<open>The parts of a started server.\<close>

lemma build_state_parts:
  assumes "build_state env a cfg = Ok st"
  shows "\<exists>zone_path. startup_zones (se_files env) a cfg = Ok (s_zones st, zone_path)"
    and "startup_forwarding a cfg = Ok (s_forward_rules st, s_forwarder st)"
    and "s_cache st = cache_new (arg_cache_size a)" and "s_limiter st = startup_limiter a"
    and "s_recursive st = (if recursive_mode cfg then Some recursive_new else None)"
    and "s_axfr_acl st = startup_axfr_acl cfg" and "s_metrics st = metrics_default"
  using assms
  by (auto simp: build_state_def obind_eq_Ok Let_def server_new_def with_blocklist_def with_dns64_def
      with_axfr_acl_def with_recursive_def split: option.splits if_splits)

lemma startup_forwarding_Ok:
  assumes "startup_forwarding a cfg = Ok (fr, fwd)"
  shows "default_upstream fr =
      (if arg_no_recurse a \<or> recursive_mode cfg then None
       else case parse_upstream (arg_upstream a) of Ok up \<Rightarrow> Some up | _ \<Rightarrow> None)"
    and "\<not> arg_no_recurse a \<Longrightarrow> \<not> recursive_mode cfg \<Longrightarrow> is_enabled fr"
    and "fwd = None \<longleftrightarrow> arg_no_recurse a"
    and "arg_no_recurse a \<Longrightarrow> fr = forward_rules_none"
  using assms
  by (auto simp: startup_forwarding_def is_enabled_def obind_eq_Ok with_default_def forward_rules_new_def
      forward_rules_none_def split: if_splits)

lemma forward_rules_none_simps [simp]:
  "match_name forward_rules_none n = None" "\<not> is_enabled forward_rules_none"
  by (simp_all add: match_name_def is_enabled_def forward_rules_none_def)


text \<open>A configuration with a default upstream and recursion, and a server started from it.\<close>

definition sample_args :: args where
  "sample_args = \<lparr>arg_config = Some ''c'', arg_zone = [], arg_addr = ''a'', arg_upstream = ''8.8.8.8:53'',
     arg_no_recurse = True, arg_rate_limit = 0, arg_cache_size = 4, arg_dot_addr = None, arg_doh_addr = None,
     arg_doq_addr = None, arg_tls_cert = None, arg_tls_key = None, arg_metrics_addr = None\<rparr>"

definition sample_settings :: "bool \<Rightarrow> settings" where
  "sample_settings rec = \<lparr>st_server = None,
     st_upstream = Some \<lparr>us_default = Some ''1.1.1.1:53'', us_timeout_secs = None, us_rules = None, us_recursive = rec\<rparr>,
     st_zone = None, st_tls = None, st_metrics = None, st_blocklist = None, st_dns64 = None, st_axfr = None,
     st_dnssec = None\<rparr>"

definition sample_startup :: "bool \<Rightarrow> startup_env" where
  "sample_startup rec = \<lparr>se_files = \<lambda>_. Some [], se_toml = \<lambda>_. Some (sample_settings rec), se_pkcs8 = None,
     se_public_key_of = \<lambda>_. None\<rparr>"

definition sample_tls :: "(unit, unit, unit) tls_library" where
  "sample_tls = \<lparr>read_bytes = \<lambda>_. None, pem_certs = \<lambda>_. None, pem_private_key = \<lambda>_. None, self_signed_pair = None,
     protocol_versions = True, single_cert = \<lambda>_ _. None\<rparr>"

definition sample_started :: "bool \<Rightarrow> bool \<Rightarrow> unit server_state" where
  "sample_started rec no_rec =
     (case run_server (sample_startup rec) sample_tls (sample_args\<lparr>arg_no_recurse := no_rec\<rparr>) of
        Ok (st, _) \<Rightarrow> st | _ \<Rightarrow> authoritative_server zone_set_empty)"

lemma sample_runs:
  "run_server (sample_startup True) sample_tls (sample_args\<lparr>arg_no_recurse := True\<rparr>)
     = Ok (sample_started True True, ''a'', None, None)"
  "run_server (sample_startup False) sample_tls (sample_args\<lparr>arg_no_recurse := False\<rparr>)
     = Ok (sample_started False False, ''a'', None, None)"
  by code_simp+


end
