(* ===== verification/Signing.thy ===== *)
theory Signing
  imports State
begin

text \<open>
  Signed responses: the RRsets \<^verbatim>\<open>apply_dnssec\<close> of \<^verbatim>\<open>src/state.rs\<close> groups the answers into, and their
  signatures.
\<close>

section \<open>RRsets\<close>

definition rr_key :: "dns_record \<Rightarrow> string \<times> u16" where
  "rr_key r = (domain r, record_type r)"

definition rrsets_of :: "dns_record list \<Rightarrow> rrset list \<Rightarrow> bool" where
  "rrsets_of ans m \<longleftrightarrow> distinct (map fst m) \<and> fst ` set m = rr_key ` set ans \<and>
     (\<forall>(k, rs) \<in> set m. rs = filter (\<lambda>r. rr_key r = k) ans)"

lemma keys_rrset_push: "fst ` set (rrset_push k r m) = insert k (fst ` set m)"
proof (induction m)
  case (Cons g m)
  then show ?case by (cases g; cases "fst g = k") (simp_all add: insert_commute)
qed simp

lemma rrset_push_members:
  assumes "distinct (map fst m)" and "(k', rs) \<in> set (rrset_push k r m)"
  shows "if k' = k then rs = (case map_of m k of Some old \<Rightarrow> old | None \<Rightarrow> []) @ [r] else (k', rs) \<in> set m"
  using assms
proof (induction m)
  case (Cons g m)
  obtain k1 rs1 where g: "g = (k1, rs1)" by fastforce
  show ?case
  proof (cases "k1 = k")
    case True
    have "k \<notin> fst ` set m" using Cons.prems(1) g True by auto
    then show ?thesis using Cons.prems(2) g True by (auto simp: rev_image_eqI)
  next
    case False
    then show ?thesis using Cons g by auto
  qed
qed auto

lemma distinct_rrset_push: "distinct (map fst m) \<Longrightarrow> distinct (map fst (rrset_push k r m))"
proof (induction m)
  case (Cons g m)
  obtain k1 rs1 where g: "g = (k1, rs1)" by fastforce
  then show ?case using Cons keys_rrset_push [of k r m] by (cases "k1 = k") (simp_all flip: image_set)
qed simp

lemma rrsets_of_push:
  assumes "rrsets_of ans m"
  shows "rrsets_of (ans @ [r]) (rrset_push (rr_key r) r m)"
proof -
  have d: "distinct (map fst m)" and ks: "fst ` set m = rr_key ` set ans"
    and rs: "(k, rs) \<in> set m \<Longrightarrow> rs = filter (\<lambda>r. rr_key r = k) ans" for k rs
    using assms by (auto simp: rrsets_of_def)
  have old: "(case map_of m k of Some old \<Rightarrow> old | None \<Rightarrow> []) = filter (\<lambda>r. rr_key r = k) ans" for k
  proof (cases "map_of m k")
    case None
    then have "k \<notin> rr_key ` set ans" by (simp add: map_of_eq_None_iff ks)
    then have "filter (\<lambda>r. rr_key r = k) ans = []" by (auto simp: filter_empty_conv)
    then show ?thesis using None by simp
  qed (auto dest!: map_of_SomeD rs)
  have "rs' = filter (\<lambda>r'. rr_key r' = k) (ans @ [r])" if "(k, rs') \<in> set (rrset_push (rr_key r) r m)" for k rs'
    using rrset_push_members [OF d that] old rs by (auto split: if_splits)
  then show ?thesis
    using distinct_rrset_push [OF d] by (auto simp: rrsets_of_def keys_rrset_push ks)
qed

lemma rrsets_of_rrsets: "rrsets_of ans (rrsets ans)"
proof (induction ans rule: rev_induct)
  case Nil
  then show ?case by (simp add: rrsets_of_def rrsets_def)
next
  case (snoc r ans)
  then show ?case using rrsets_of_push [of ans "rrsets ans" r] by (simp add: rrsets_def rr_key_def)
qed

lemma rrsets_nonempty: "g \<in> set (rrsets ans) \<Longrightarrow> snd g \<noteq> []"
proof -
  assume g: "g \<in> set (rrsets ans)"
  have w: "fst g \<in> rr_key ` set ans" "snd g = filter (\<lambda>r. rr_key r = fst g) ans"
    using rrsets_of_rrsets [of ans] g by (auto simp: rrsets_of_def)
  then show ?thesis by (auto simp: filter_empty_conv)
qed


section \<open>Signatures\<close>

text \<open>The iteration over a hash map visits every entry once.\<close>

definition visits_all :: "env \<Rightarrow> bool" where
  "visits_all e \<longleftrightarrow> (\<forall>gs. mset (rrset_order e gs) = mset gs)"

lemma sign_rrset_Panic: "sign_rrset ed ks rs signer t inc exp = Panic \<Longrightarrow> rs = []"
  by (simp add: sign_rrset_def Let_def split: list.splits option.splits)

lemma sign_groups_Ok:
  "\<forall>g \<in> set groups. snd g \<noteq> [] \<Longrightarrow> \<exists>sigs. sign_groups e ks signer i groups = Ok sigs"
proof (induction groups arbitrary: i)
  case (Cons g groups)
  obtain owner rtype rs where g: "g = ((owner, rtype), rs)" by (metis prod.exhaust)
  have ne: "rs \<noteq> []" using Cons.prems g by simp
  obtain sigs where "sign_groups e ks signer (i + 1) groups = Ok sigs" using Cons.IH [of "i + 1"] Cons.prems by auto
  then show ?case
    using ne by (auto simp: g Let_def split: outcome.split dest: sign_rrset_Panic)
qed simp

text \<open>Signing a response never fails: at worst the response goes out as it was.\<close>

lemma apply_dnssec_Ok:
  assumes "visits_all e"
  shows "\<exists>resp'. apply_dnssec e resp zs qn qt ks = Ok resp'"
proof -
  have "\<forall>g \<in> set (rrset_order e (rrsets (answers resp))). snd g \<noteq> []"
    using assms rrsets_nonempty by (metis set_mset_mset visits_all_def)
  from sign_groups_Ok [OF this] obtain sigs where
    "sign_groups e ks (case zone_set_find zs (to_lowercase qn) of Some z \<Rightarrow> origin z | None \<Rightarrow> []) 0
       (rrset_order e (rrsets (answers resp))) = Ok sigs" by blast
  then show ?thesis
    by (auto simp: apply_dnssec_def Let_def split: outcome.split dest: sign_rrset_Panic)
qed


text \<open>What a signature of the RRset of \<open>rs\<close> is: \<^verbatim>\<open>sign_rrset\<close> over it, at its smallest time to live.\<close>

definition signs :: "env \<Rightarrow> dnssec_keys \<Rightarrow> string \<Rightarrow> dns_record list \<Rightarrow> dns_record \<Rightarrow> bool" where
  "signs e ks signer rs sig \<longleftrightarrow>
     (\<exists>i t. min_ttl rs = Some t \<and>
        sign_rrset (ed25519 e) ks rs signer t (unix_clock e (2 * i)) (unix_clock e (2 * i + 1) + 2592000) = Ok sig)"

fun covered_key :: "dns_record \<Rightarrow> string \<times> u16" where
  "covered_key (RRSIG d c _ _ _ _ _ _ _ _ _) = (d, c)"
| "covered_key r = rr_key r"

lemma sign_rrset_key:
  assumes "sign_rrset ed ks rs signer t inc exp = Ok sig" and "rs = r # rs'"
  shows "covered_key sig = rr_key r" and "with_domain sig (domain r) = sig"
  using assms by (auto simp: sign_rrset_def Let_def rr_key_def split: list.splits option.splits)

lemma sign_groups_each:
  assumes "ed25519 e (private_key k) = Some sign" and "sign_groups e (k # ks) signer i groups = Ok sigs"
    and "\<And>g. g \<in> set groups \<Longrightarrow> snd g \<noteq> [] \<and> (\<forall>r \<in> set (snd g). rr_key r = fst g)"
  shows "list_all2 (\<lambda>g sig. covered_key sig = fst g \<and> signs e (k # ks) signer (snd g) sig) groups sigs"
  using assms(2,3)
proof (induction groups arbitrary: i sigs)
  case (Cons g groups)
  obtain owner rtype rs where g: "g = ((owner, rtype), rs)" by (metis prod.exhaust)
  obtain r rs' where rs: "rs = r # rs'" using Cons.prems(2) [of g] g by (cases rs) auto
  have key: "rr_key r = (owner, rtype)" using Cons.prems(2) [of g] g rs by auto
  obtain t where t: "min_ttl rs = Some t" using rs by auto
  obtain sig where sig: "sign_rrset (ed25519 e) (k # ks) rs signer t (unix_clock e (2 * i))
      (unix_clock e (2 * i + 1) + 2592000) = Ok sig"
    using assms(1) rs by (simp add: sign_rrset_def Let_def)
  obtain sigs' where sigs': "sign_groups e (k # ks) signer (i + 1) groups = Ok sigs'"
    and sigs: "sigs = with_domain sig owner # sigs'"
    using Cons.prems(1) g t sig by (auto simp: Let_def obind_eq_Ok)
  have "with_domain sig owner = sig" "covered_key sig = (owner, rtype)"
    using sign_rrset_key [OF sig rs] key by (simp_all add: rr_key_def)
  then show ?case
    using Cons.IH [OF sigs' Cons.prems(2)] g sigs sig t by (auto simp: signs_def)
qed simp

text \<open>
  C19: a signed response carries, after its own answers, exactly one signature for each RRset among
  them, made over all the records of that RRset, for the zone of the question; and its answer
  count is that of the answers.
\<close>

theorem signed_response:
  assumes "apply_dnssec e resp zs qn qt (k # ks) = Ok resp'" and "visits_all e"
    and "ed25519 e (private_key k) = Some sign" and "qt \<noteq> TYPE_DNSKEY"
    and "zone_set_find zs (to_lowercase qn) = Some z" and "origin z \<noteq> []"
  shows "\<exists>sigs. resp' = (if sigs = [] then resp else set_answers (answers resp @ sigs) resp) \<and>
    distinct (map covered_key sigs) \<and> covered_key ` set sigs = rr_key ` set (answers resp) \<and>
    (\<forall>sig \<in> set sigs. signs e (k # ks) (origin z) (filter (\<lambda>r. rr_key r = covered_key sig) (answers resp)) sig)"
proof -
  let ?gs = "rrset_order e (rrsets (answers resp))"
  have gs: "set ?gs = set (rrsets (answers resp))" "mset (map fst ?gs) = mset (map fst (rrsets (answers resp)))"
    using assms(2) by (metis set_mset_mset visits_all_def, metis mset_map visits_all_def)
  have r: "rrsets_of (answers resp) (rrsets (answers resp))" by (rule rrsets_of_rrsets)
  have d: "distinct (map fst ?gs)" using r gs(2) by (metis mset_eq_imp_distinct_iff rrsets_of_def)
  have f: "snd g = filter (\<lambda>r. rr_key r = fst g) (answers resp)" if "g \<in> set ?gs" for g
    using r that gs(1) by (auto simp: rrsets_of_def)
  show ?thesis
  proof (cases "answers resp = []")
    case True
    then show ?thesis using assms(1,4) by (intro exI [of _ "[]"]) (simp add: apply_dnssec_def Let_def)
  next
    case False
    then obtain sigs where sigs: "sign_groups e (k # ks) (origin z) 0 ?gs = Ok sigs"
      and resp': "resp' = (if sigs = [] then resp else set_answers (answers resp @ sigs) resp)"
      using assms(1,4-6) by (auto simp: apply_dnssec_def Let_def obind_eq_Ok)
    have "list_all2 (\<lambda>g sig. covered_key sig = fst g \<and> signs e (k # ks) (origin z) (snd g) sig) ?gs sigs"
      using sign_groups_each [OF assms(3) sigs] f gs(1) rrsets_nonempty by auto
    note all2 = this
    then have keys: "map covered_key sigs = map fst ?gs"
      by (induction rule: list_all2_induct) simp_all
    have each: "\<exists>g \<in> set ?gs. covered_key sig = fst g \<and> signs e (k # ks) (origin z) (snd g) sig"
      if "sig \<in> set sigs" for sig
      using all2 that by (induction rule: list_all2_induct) auto
    have "covered_key ` set sigs = rr_key ` set (answers resp)"
      using arg_cong [OF keys, of set] r gs(1) by (simp add: rrsets_of_def)
    moreover have "signs e (k # ks) (origin z) (filter (\<lambda>r. rr_key r = covered_key sig) (answers resp)) sig"
      if "sig \<in> set sigs" for sig
    proof -
      from each [OF that] obtain g where "g \<in> set ?gs" "covered_key sig = fst g" "signs e (k # ks) (origin z) (snd g) sig"
        by blast
      with f show ?thesis by (simp only: f)
    qed
    moreover have "distinct (map covered_key sigs)" by (simp only: keys d)
    ultimately show ?thesis using resp' by blast
  qed
qed

definition signing_key_sample :: signing_key where
  "signing_key_sample = \<lparr>zone_name = ''a'', key_flags = 0x0101, key_algorithm = 15, public_key = [1], private_key = [2]\<rparr>"

definition signing_env :: env where
  "signing_env = \<lparr>shard = 0, limiter_clock = 0, cache_clock = 0, insert_clock = 0, insert_clock' = 0,
     unix_clock = \<lambda>_. 0, rrset_order = rev, first_key = \<lambda>_. None, ed25519 = \<lambda>_. Some (\<lambda>m. [of_nat (length m)])\<rparr>"

definition signing_response :: dns_packet where
  "signing_response = \<lparr>header = \<lparr>h_id = 1, h_flags = 0x8400, h_questions = 0, h_answers = 3, h_authorities = 0,
     h_additionals = 0\<rparr>, questions = [],
     answers = [CNAME ''w.a'' ''a'' 60, A ''a'' 1 30, A ''a'' 2 20], authorities = [], additionals = []\<rparr>"

theorem signed_response_witness:
  "\<exists>sigs. apply_dnssec signing_env signing_response (zone_set_from_single ''a'' []) ''w.a'' 1 [signing_key_sample]
       = Ok (set_answers (answers signing_response @ sigs) signing_response) \<and>
     covered_key ` set sigs = {(''w.a'', 5), (''a'', 1)}"
proof -
  have v: "visits_all signing_env" by (simp add: visits_all_def signing_env_def)
  have z: "zone_set_find (zone_set_from_single ''a'' []) (to_lowercase ''w.a'') = Some \<lparr>origin = ''a'', records = []\<rparr>"
    by code_simp
  have k: "rr_key ` set (answers signing_response) = {(''w.a'', 5), (''a'', 1)}"
    by (auto simp: signing_response_def rr_key_def type_codes)
  from apply_dnssec_Ok [OF v] obtain resp' where r: "apply_dnssec signing_env signing_response (zone_set_from_single ''a'' []) ''w.a'' 1
      [signing_key_sample] = Ok resp'" ..
  have s: "ed25519 signing_env (private_key signing_key_sample) = Some (\<lambda>m. [of_nat (length m)])"
    by (simp add: signing_env_def)
  have "(1 :: u16) \<noteq> TYPE_DNSKEY" and "origin \<lparr>origin = ''a'', records = []\<rparr> \<noteq> []" by (simp_all add: type_codes)
  from signed_response [OF r v s this(1) z this(2)] obtain sigs where
    resp': "resp' = (if sigs = [] then signing_response else set_answers (answers signing_response @ sigs) signing_response)"
    and c: "covered_key ` set sigs = rr_key ` set (answers signing_response)" by blast
  from c k have "sigs \<noteq> []" by auto
  then show ?thesis using r resp' c k by (intro exI [of _ sigs]) (simp only: if_False simp_thms)
qed

end
