(* ===== verification/Server_Inv.thy ===== *)
theory Server_Inv
  imports Wire_Props Query_Path Replay Startup Signing
begin

text \<open>
  The operations of a running server, in any order, as an inductive step relation, and the
  invariant of its state over them.  It holds of every started server; with it, a server that
  forwards deals with every request.
\<close>

section \<open>The invariant\<close>

definition zones_ok :: "zone_set \<Rightarrow> bool" where
  "zones_ok zs \<longleftrightarrow> sorted_wrt (\<lambda>a b. length (origin b) \<le> length (origin a)) (zones zs)"

definition cache_parses :: "cache \<Rightarrow> bool" where
  "cache_parses c \<longleftrightarrow>
     (\<forall>(k, ent) \<in> set (cache_map c). \<exists>p. from_bytes (response ent) = Ok p \<and> cache_ttl p \<noteq> None)"

definition server_inv :: "'s server_state \<Rightarrow> bool" where
  "server_inv st \<longleftrightarrow>
     zones_ok (s_zones st) \<and> cache_inv (s_cache st) \<and> cache_parses (s_cache st) \<and>
     wf_map (clients (s_limiter st)) \<and> wf_metrics (s_metrics st) \<and> list_all wf_cidr (acl_entries (s_axfr_acl st)) \<and>
     (s_forwarder st = None \<longrightarrow> (\<forall>n. match_name (s_forward_rules st) n = None)) \<and>
     (case s_forwarder st of None \<Rightarrow> True | Some mf \<Rightarrow> mf_inv mf) \<and>
     (case s_recursive st of None \<Rightarrow> True | Some rr \<Rightarrow> wf_map (delegations rr))"

text \<open>The surroundings of a call: a shard that exists, and a cache iteration that yields a key it holds.\<close>

definition env_ok :: "env \<Rightarrow> bool" where
  "env_ok e \<longleftrightarrow> shard e < SHARDS \<and> iterates (first_key e) \<and> visits_all e"

inductive server_step :: "('s, 'w) net \<Rightarrow> 's server_state \<Rightarrow> 's server_state \<Rightarrow> bool" for net where
  query: "env_ok e \<Longrightarrow> resolve_local e req ip tr st = (r, st') \<Longrightarrow> server_step net st st'"
| transfer: "env_ok e \<Longrightarrow> try_axfr e req ip st = (r', st') \<Longrightarrow> server_step net st st'"
| upstream: "env_ok e \<Longrightarrow> forward_and_cache e net ctx st w = (r'', st', w') \<Longrightarrow> server_step net st st'"
| tidy: "server_step net st (cleanup_rate_limiter now st)"
| reloaded: "reload read_file toml st = (r''', st') \<Longrightarrow> server_step net st st'"

lemma zones_ok_new: "zones_ok (zone_set_new zs)"
proof -
  have "sorted (map (\<lambda>z. - int (length (origin z))) (sort_key (\<lambda>z. - int (length (origin z))) zs))" by simp
  then show ?thesis
    unfolding zones_ok_def zone_set_new_def by (simp add: sorted_wrt_map sorted_map)
qed

lemma zones_ok_loaded:
  "load_zones_from_settings read_file s = Ok zs \<Longrightarrow> zones_ok zs"
  by (auto simp: load_zones_from_settings_def zones_ok_new split: option.splits)
     (simp add: zones_ok_def zone_set_empty_def)

lemma cache_parses_subset:
  "cache_parses c \<Longrightarrow> set (cache_map c') \<subseteq> set (cache_map c) \<Longrightarrow> cache_parses c'"
  by (auto simp: cache_parses_def)

lemma cache_parses_get: "cache_parses c \<Longrightarrow> cache_parses (snd (cache_get now n qt c))"
  by (erule cache_parses_subset) (auto simp: cache_get_def Let_def dm_remove_def split: option.splits)

lemma cache_get_parses:
  assumes "cache_parses c" and "fst (cache_get now n qt c) = Some raw"
  shows "\<exists>p. from_bytes raw = Ok p"
  using assms by (auto simp: cache_get_def cache_parses_def Let_def split: option.splits if_splits dest!: map_of_SomeD)

lemma set_evict: "set (cache_map (evict_if_full fk now c)) \<subseteq> set (cache_map c)"
  by (auto simp: evict_if_full_def Let_def dm_remove_def dm_retain_def split: option.splits if_splits)

lemma cache_parses_insert:
  assumes "cache_parses c" and "from_bytes raw = Ok p" and "cache_ttl p \<noteq> None"
  shows "cache_parses (cache_insert fk now now' n qt raw t c)"
proof -
  have "cache_parses (evict_if_full fk now c)" using assms(1) set_evict by (rule cache_parses_subset)
  then show ?thesis
    using assms by (auto simp: cache_insert_def Let_def cache_parses_def dm_insert_def)
qed

lemma wf_metrics_inc [simp]:
  "wf_metrics m \<Longrightarrow> wf_metrics (inc_total i m)" "wf_metrics m \<Longrightarrow> wf_metrics (inc_authoritative i m)"
  "wf_metrics m \<Longrightarrow> wf_metrics (inc_cache_hit i m)" "wf_metrics m \<Longrightarrow> wf_metrics (inc_forwarded i m)"
  "wf_metrics m \<Longrightarrow> wf_metrics (inc_coalesced i m)" "wf_metrics m \<Longrightarrow> wf_metrics (inc_rate_limited i m)"
  "wf_metrics m \<Longrightarrow> wf_metrics (inc_blocked i m)" "wf_metrics m \<Longrightarrow> wf_metrics (inc_error i m)"
  by (simp_all add: inc_defs wf_bump)

lemma server_inv_metrics [simp]:
  "server_inv st \<Longrightarrow> wf_metrics m \<Longrightarrow> server_inv (st\<lparr>s_metrics := m\<rparr>)"
  by (simp add: server_inv_def)

lemma server_inv_wf_metrics [simp]: "server_inv st \<Longrightarrow> wf_metrics (s_metrics st)"
  by (simp add: server_inv_def)

lemma after_limiter_inv: "server_inv st \<Longrightarrow> server_inv (after_limiter e ip st)"
  by (simp add: server_inv_def after_limiter_def wf_allow)

lemma server_inv_cache:
  "server_inv st \<Longrightarrow> cache_inv c \<Longrightarrow> cache_parses c \<Longrightarrow> server_inv (st\<lparr>s_cache := c\<rparr>)"
  by (simp add: server_inv_def)

lemma unknown_name_inv:
  assumes inv: "server_inv st"
  shows "server_inv (snd (unknown_name e req request q resp tr st))"
proof -
  obtain cached c where c: "cache_get (cache_clock e) (to_lowercase (qname q)) (qtype q) (s_cache st) = (cached, c)"
    by fastforce
  have "cache_inv (s_cache st)" "cache_parses (s_cache st)" using inv by (simp_all add: server_inv_def)
  from cache_inv_get [OF this(1)] cache_parses_get [OF this(2)] have "cache_inv c" "cache_parses c" by (metis c snd_conv)+
  with inv have inv': "server_inv (st\<lparr>s_cache := c\<rparr>)" by (intro server_inv_cache)
  have wf: "wf_metrics (s_metrics st)" using inv by simp
  show ?thesis using server_inv_metrics [OF inv'] wf inv' by (auto simp: unknown_name_def Let_def c split: option.splits)
qed

lemma resolve_local_inv: "server_inv st \<Longrightarrow> server_inv (snd (resolve_local e req ip tr st))"
proof -
  assume inv: "server_inv st"
  then have i: "server_inv (after_limiter e ip st)" by (rule after_limiter_inv)
  have wf: "wf_metrics (s_metrics st)" using inv by simp
  show ?thesis
    using unknown_name_inv [OF i] server_inv_metrics [OF i] wf i
    by (simp add: resolve_local_eq Let_def local_answer_def split: outcome.splits option.splits)
qed

lemma try_axfr_inv: "server_inv st \<Longrightarrow> server_inv (snd (try_axfr e req ip st))"
  by (auto simp: try_axfr_def Let_def split: outcome.splits list.splits bool.splits option.splits)

lemma resolve_wf:
  assumes "wf_map (delegations rr)"
  shows "wf_map (delegations (fst (snd (resolve net name qt cid rr w))))"
proof -
  have qo: "delegations (fst (snd (query_one net n q s r v))) = delegations r" for n q s r v
    by (auto simp: query_one_def Let_def split: prod.splits option.splits bool.splits)
  have qs: "delegations (fst (snd (query_servers net n q ss e r v))) = delegations r" for n q ss e r v
  proof (induction ss arbitrary: e r v)
    case (Cons s ss)
    then show ?case using qo [of n q s r v]
      by (cases "query_one net n q s r v") (auto split: outcome.splits)
  qed simp
  have loop: "wf_map (delegations (fst (snd (resolve_loop net n q c k ss z r v))))" if "wf_map (delegations r)"
    for n q c k ss z r v
    using that
  proof (induction k arbitrary: ss z r v)
    case (Suc k)
    define m where "m = minimized_qname n z"
    obtain res r1 v1 where r1: "query_servers net m q ss ''no servers available'' r v = (res, r1, v1)"
      by (metis prod_cases3)
    have wf: "wf_map (delegations r1)"
      using qs [of m q ss "''no servers available''" r v] r1 Suc.prems by simp
    note IH = Suc.IH [OF wf] Suc.IH [of "r1\<lparr>delegations := dm_insert _ _ (delegations r1)\<rparr>"]
    show ?case
    proof (cases res)
      case (Ok resp)
      obtain d v2 where "extract_delegation net resp r1 v1 = (d, v2)" by fastforce
      then show ?thesis
        unfolding resolve_loop.simps m_def [symmetric] Let_def r1 Ok
        using wf by (cases d) (simp_all add: IH wf_dm_insert)
    qed (unfold resolve_loop.simps m_def [symmetric] Let_def r1, simp_all add: wf)
  qed simp
  obtain ss r1 v1 where i: "initial_servers net (trim_end_dots (to_lowercase name)) rr w = (ss, r1, v1)"
    by (metis prod_cases3)
  then have "wf_map (delegations r1)"
    using assms by (auto simp: initial_servers_def Let_def wf_dm_remove split: option.splits prod.splits if_splits)
  then show ?thesis using loop by (simp add: resolve_def Let_def i)
qed

lemma upstream_result_recursive:
  assumes "is_sentinel (ctx_upstream ctx)" and "s_recursive st = Some rr"
  shows "fst (snd (upstream_result e net ctx st w)) = (tally inc_forwarded e st)\<lparr>s_recursive := Some (fst (snd
     (resolve net (ctx_name ctx) (ctx_qtype ctx) (h_id (header (ctx_request ctx))) rr w)))\<rparr>"
  unfolding upstream_result_def Let_def if_P [OF assms(1)] assms(2) option.case case_prod_beta fst_conv snd_conv ..

lemma upstream_result_forwarder:
  assumes "\<not> is_sentinel (ctx_upstream ctx)" and "s_forwarder st = Some mf"
  shows "fst (snd (upstream_result e net ctx st w)) = (tally inc_forwarded e st)\<lparr>s_forwarder := Some (fst (snd
     (multi_forward net (ctx_raw ctx) (ctx_upstream ctx) mf w)))\<rparr>"
  unfolding upstream_result_def Let_def if_not_P [OF assms(1)] assms(2) option.case case_prod_beta fst_conv snd_conv ..

lemma upstream_result_panics:
  "is_sentinel (ctx_upstream ctx) \<Longrightarrow> s_recursive st = None \<Longrightarrow> upstream_result e net ctx st w = (Panic, st, w)"
  "\<not> is_sentinel (ctx_upstream ctx) \<Longrightarrow> s_forwarder st = None \<Longrightarrow> upstream_result e net ctx st w = (Panic, st, w)"
  by (simp_all only: upstream_result_def if_True if_False option.case)

lemma server_inv_recursive:
  "server_inv st \<Longrightarrow> wf_metrics m \<Longrightarrow> wf_map (delegations rr) \<Longrightarrow>
     server_inv (st\<lparr>s_metrics := m, s_recursive := Some rr\<rparr>)"
  by (simp add: server_inv_def)

lemma server_inv_forwarder:
  "server_inv st \<Longrightarrow> wf_metrics m \<Longrightarrow> mf_inv mf \<Longrightarrow> server_inv (st\<lparr>s_metrics := m, s_forwarder := Some mf\<rparr>)"
  by (simp add: server_inv_def)

lemma upstream_result_inv:
  assumes inv: "server_inv st"
  shows "server_inv (fst (snd (upstream_result e net ctx st w)))"
proof (cases "is_sentinel (ctx_upstream ctx)")
  case True
  show ?thesis
  proof (cases "s_recursive st")
    case (Some rr)
    have "wf_map (delegations rr)" using inv Some by (simp add: server_inv_def)
    then show ?thesis
      unfolding upstream_result_recursive [OF True Some]
      by (intro server_inv_recursive resolve_wf wf_metrics_inc server_inv_wf_metrics inv)
  qed (simp only: upstream_result_panics(1) [OF True] fst_conv snd_conv inv)
next
  case False
  show ?thesis
  proof (cases "s_forwarder st")
    case (Some mf)
    have "mf_inv mf" using inv Some by (simp add: server_inv_def)
    then show ?thesis
      unfolding upstream_result_forwarder [OF False Some]
      by (intro server_inv_forwarder multi_forward_inv wf_metrics_inc server_inv_wf_metrics inv)
  qed (simp only: upstream_result_panics(2) [OF False] fst_conv snd_conv inv)
qed

lemma forward_and_cache_inv:
  assumes inv: "server_inv st" and e: "env_ok e"
  shows "server_inv (fst (snd (forward_and_cache e net ctx st w)))"
proof -
  obtain r1 st1 w1 where u: "upstream_result e net ctx st w = (r1, st1, w1)" by (metis prod_cases3)
  have i: "server_inv st1" using upstream_result_inv [OF inv, of e net ctx w] by (simp only: u fst_conv snd_conv)
  have c: "server_inv (st1\<lparr>s_cache := cache_insert (first_key e) (insert_clock e) (insert_clock' e)
      (ctx_name ctx) (ctx_qtype ctx) raw t (s_cache st1)\<rparr>)"
    if "from_bytes raw = Ok p" "cache_ttl p = Some t" for raw t p
  proof (rule server_inv_cache [OF i])
    have "cache_inv (s_cache st1)" "cache_parses (s_cache st1)" using i by (simp_all add: server_inv_def)
    then show "cache_inv (cache_insert (first_key e) (insert_clock e) (insert_clock' e) (ctx_name ctx) (ctx_qtype ctx)
        raw t (s_cache st1))" "cache_parses (cache_insert (first_key e) (insert_clock e) (insert_clock' e)
        (ctx_name ctx) (ctx_qtype ctx) raw t (s_cache st1))"
      using e that by (simp_all add: env_ok_def cache_inv_insert cache_parses_insert)
  qed
  have m: "server_inv (tally inc_error e st1)" by (intro server_inv_metrics wf_metrics_inc server_inv_wf_metrics i)
  show ?thesis
  proof (cases r1)
    case (Ok bs)
    show ?thesis
      unfolding forward_and_cache_def u Ok prod.case outcome.case
      using i c by (cases "from_bytes bs") (simp_all split: option.split)
  qed (unfold forward_and_cache_def u prod.case, simp_all add: i m)
qed

lemma reload_inv:
  assumes inv: "server_inv st"
  shows "server_inv (snd (reload read_file toml st))"
proof -
  have z: "zones_ok zs \<Longrightarrow> server_inv (st\<lparr>s_zones := zs, s_blocklist := b\<rparr>)" for zs b
    using inv by (simp add: server_inv_def)
  have z1: "server_inv (st\<lparr>s_zones := zone_set_from_single n y\<rparr>)" for n y
    using inv by (simp add: server_inv_def zone_set_from_single_def zones_ok_new)
  show ?thesis
  proof (cases "s_zone_path st")
    case (Some p)
    show ?thesis
    proof (cases "suffix ''.toml'' p")
      case True
      show ?thesis
        unfolding reload_def Some option.case if_P [OF True]
      proof (cases "load_settings read_file toml p")
        case s: (Ok s)
        show "server_inv (snd (case obind (load_settings read_file toml p) (\<lambda>s.
                    obind (load_zones_from_settings read_file s) (\<lambda>zs. Ok (s, zs))) of
               Ok (s, zs) \<Rightarrow>
                 (Ok (), st\<lparr>s_zones := zs,
                    s_blocklist := (if st_blocklist s \<noteq> None
                       then snd (blocklist_reload read_file (s_blocklist st)) else s_blocklist st)\<rparr>)
             | Err x \<Rightarrow> (Err x, st)
             | Panic \<Rightarrow> (Panic, st)))"
          by (cases "load_zones_from_settings read_file s") (simp_all add: s inv z zones_ok_loaded)
      qed (simp_all add: inv)
    next
      case False
      show ?thesis
        unfolding reload_def Some option.case if_not_P [OF False]
        by (cases "load_zone_file read_file p") (simp_all add: inv z1)
    qed
  qed (simp add: reload_def inv)
qed

lemma server_step_inv: "server_step net st st' \<Longrightarrow> server_inv st \<Longrightarrow> server_inv st'"
proof (induction rule: server_step.induct)
  case (query e req ip tr st r st')
  then show ?case using resolve_local_inv [of st e req ip tr] by simp
next
  case (transfer e req ip st r' st')
  then show ?case using try_axfr_inv [of st e req ip] by simp
next
  case (upstream e ctx st w r'' st' w')
  then show ?case using forward_and_cache_inv [of st e net ctx w] by simp
next
  case (tidy st now)
  then show ?case by (simp add: server_inv_def cleanup_rate_limiter_def cleanup_def wf_dm_retain)
next
  case (reloaded read_file toml st r''' st')
  then show ?case using reload_inv [of st read_file toml] by simp
qed



section \<open>Started servers\<close>

lemma startup_zones_ok: "startup_zones read_file a cfg = Ok (zs, zone_path) \<Longrightarrow> zones_ok zs"
  by (auto simp: startup_zones_def obind_eq_Ok zone_set_from_single_def zones_ok_new zones_ok_loaded split: option.splits)

lemma startup_axfr_acl_wf: "list_all wf_cidr (acl_entries (startup_axfr_acl cfg))"
  by (simp add: startup_axfr_acl_def deny_all_def acl_parse_wf split: option.split outcome.split)

lemma started_inv:
  assumes "run_server env lib a = Ok (st, addr, tls, maddr)"
  shows "server_inv st"
proof -
  from assms obtain cfg where b: "build_state env a cfg = Ok st" by (rule run_server_Ok)
  note parts = build_state_parts [OF b]
  have fwd: "s_forwarder st = None \<or> (\<exists>t. s_forwarder st = Some (multi_forwarder_new t))"
    using parts(2) by (auto simp: startup_forwarding_def obind_eq_Ok split: if_splits)
  have none: "s_forwarder st = None \<Longrightarrow> match_name (s_forward_rules st) n = None" for n
    using startup_forwarding_Ok(3,4) [OF parts(2)] by simp
  have "zones_ok (s_zones st)" using parts(1) startup_zones_ok by blast
  moreover have "wf_map (clients (s_limiter st))"
    by (simp add: parts(4) startup_limiter_def limiter_disabled_def limiter_new_def wf_map_def)
  moreover have "mf_inv (multi_forwarder_new t)" for t by (simp add: mf_inv_def multi_forwarder_new_def wf_map_def)
  moreover have "wf_map (delegations recursive_new)" by (simp add: recursive_new_def wf_map_def)
  moreover have "cache_parses (cache_new n)" for n by (simp add: cache_parses_def cache_new_def)
  ultimately show ?thesis
    using fwd none parts(3,5-7)
    by (auto simp: server_inv_def startup_axfr_acl_wf wf_metrics_def metrics_default_def)
qed

text \<open>What no step changes: the forwarding rules, whether the server recurses, the size of its cache.\<close>

definition same_setup :: "'s server_state \<Rightarrow> 's server_state \<Rightarrow> bool" where
  "same_setup st st' \<longleftrightarrow>
     s_forward_rules st' = s_forward_rules st \<and> (s_recursive st' = None \<longleftrightarrow> s_recursive st = None) \<and>
     capacity (s_cache st') = capacity (s_cache st)"

lemma same_setup_refl: "same_setup a a"
  by (simp add: same_setup_def)

lemma same_setup_trans: "same_setup a b \<Longrightarrow> same_setup b c \<Longrightarrow> same_setup a c"
  by (simp add: same_setup_def)

lemma capacity_get: "capacity (snd (cache_get now n qt c)) = capacity c"
  by (simp add: cache_get_def Let_def split: option.split)

lemma capacity_insert [simp]: "capacity (cache_insert fk now now' n qt r t c) = capacity c"
  by (simp add: cache_insert_def Let_def)

lemma unknown_name_setup: "same_setup st (snd (unknown_name e req request q resp tr st))"
  using capacity_get [of "cache_clock e" "to_lowercase (qname q)" "qtype q" "s_cache st"]
  by (auto simp: unknown_name_def same_setup_def Let_def split: prod.split option.split)

lemma resolve_local_setup: "same_setup st (snd (resolve_local e req ip tr st))"
  using unknown_name_setup [of "after_limiter e ip st"]
  by (simp add: resolve_local_eq same_setup_def Let_def local_answer_def split: outcome.split option.split)

lemma try_axfr_setup: "same_setup st (snd (try_axfr e req ip st))"
  by (simp add: try_axfr_def same_setup_def Let_def split: outcome.split list.split bool.split option.split)

lemma forward_and_cache_setup: "same_setup st (fst (snd (forward_and_cache e net ctx st w)))"
proof -
  obtain r1 st1 w1 where u: "upstream_result e net ctx st w = (r1, st1, w1)" by (metis prod_cases3)
  have "same_setup st st1" using upstream_result_frame(2,6,8) [OF u] by (simp add: same_setup_def)
  then show ?thesis
    by (simp add: forward_and_cache_def u same_setup_def split: outcome.split option.split)
qed

lemma reload_setup: "same_setup st (snd (reload read_file toml st))"
  by (simp add: reload_def same_setup_def split: option.split outcome.split prod.split)

lemma server_step_setup: "server_step net st st' \<Longrightarrow> same_setup st st'"
  by (cases rule: server_step.cases, assumption)
     (metis resolve_local_setup snd_conv, metis try_axfr_setup snd_conv,
      metis forward_and_cache_setup fst_conv snd_conv,
      simp add: same_setup_def cleanup_rate_limiter_def, metis reload_setup snd_conv)

interpretation srv: step_invariant "server_step net" server_inv for net
  by unfold_locales (rule server_step_inv)

lemma reachable:
  assumes "(server_step net)\<^sup>*\<^sup>* st st'" and "server_inv st"
  shows "server_inv st' \<and> same_setup st st'"
proof
  show "server_inv st'" by (rule srv.steps_good [OF assms])
  show "same_setup st st'"
    by (rule steps_related [where R = same_setup, OF assms(1)])
       (erule server_step_setup, rule same_setup_refl, erule (1) same_setup_trans)
qed

lemma zones_ok_longest:
  assumes "zones_ok zs" and "zone_set_find zs n = Some z"
  shows "z \<in> set (zones zs) \<and> covers z n \<and> (\<forall>y \<in> set (zones zs). covers y n \<longrightarrow> length (origin y) \<le> length (origin z))"
proof -
  from assms(2) obtain i where i: "i < length (zones zs)" "covers (zones zs ! i) n" "z = zones zs ! i"
    "\<forall>j < i. \<not> covers (zones zs ! j) n"
    by (auto simp: zone_set_find_def find_Some_iff)
  have "length (origin (zones zs ! j)) \<le> length (origin z)" if "j < length (zones zs)" "covers (zones zs ! j) n" for j
  proof (cases "j = i")
    case False
    with i(4) that(2) have "i < j" by (meson linorder_neqE_nat)
    with assms(1) that(1) i(3) show ?thesis by (simp add: zones_ok_def sorted_wrt_iff_nth_less)
  qed (simp add: i)
  then show ?thesis using i by (metis in_set_conv_nth)
qed




section \<open>No request stops the server\<close>

text \<open>A message that does not parse to a panic, as a reply.\<close>

definition calm :: "bytes io_result \<Rightarrow> bool" where
  "calm r \<longleftrightarrow> (case r of Ok bs \<Rightarrow> from_bytes bs \<noteq> Panic | Err _ \<Rightarrow> True | Panic \<Rightarrow> False)"

lemma recv_matching_calm: "harmless net \<Longrightarrow> calm (fst (recv_matching net s query k w))"
proof (induction k arbitrary: w)
  case (Suc k)
  obtain d w1 where r: "net_recv net s w = (d, w1)" by fastforce
  then have "d = Some x \<Longrightarrow> from_bytes x \<noteq> Panic" for x
    using Suc.prems unfolding harmless_def by (metis fst_conv)
  then show ?case using Suc.IH [OF Suc.prems] r by (auto simp: calm_def split: option.split)
qed (simp add: calm_def)

lemma query_tcp_calm: "harmless net \<Longrightarrow> calm (fst (query_tcp net f query w))"
  unfolding harmless_def query_tcp_def
  by (cases "net_tcp net (fwd_upstream f) (frame query) w") (auto simp: calm_def split: option.split, metis fst_conv)

lemma query_once_calm:
  assumes "harmless net" and "2 \<le> length query"
  shows "calm (fst (query_once net f s query w))"
proof -
  obtain ok w1 where s: "net_send net s query w = (ok, w1)" by fastforce
  obtain r w2 where r: "recv_matching net s query MAX_STALE w1 = (r, w2)" by fastforce
  have "calm r" using recv_matching_calm [OF assms(1), of s query MAX_STALE w1] r by simp
  then show ?thesis
    using assms query_tcp_calm [OF assms(1), of f query w2] s r
    by (cases ok; cases r) (auto simp: query_once_def calm_def)
qed

lemma forward_calm: "harmless net \<Longrightarrow> calm (fst (forward net query f w))"
proof -
  assume h: "harmless net"
  obtain r f1 w1 where c: "checkout net f w = (r, f1, w1)" by (metis prod_cases3)
  have "r \<noteq> Panic" using c by (auto simp: checkout_def split: if_splits prod.splits option.splits)
  then show ?thesis
  proof (cases r)
    case (Ok s)
    obtain r2 w2 where q: "query_once net f1 s query w1 = (r2, w2)" by fastforce
    show ?thesis
      using query_once_calm [OF h, of query f1 s w1] q c Ok
      by (cases "length query < 2"; cases r2) (simp_all add: forward_def calm_def)
  qed (use c in \<open>auto simp: forward_def calm_def\<close>)
qed

lemma multi_forward_calm: "harmless net \<Longrightarrow> calm (fst (multi_forward net query up mf w))"
proof -
  assume h: "harmless net"
  obtain f mf1 where g: "get_or_create up mf = (f, mf1)" by fastforce
  show ?thesis
    using forward_calm [OF h, of query f w] by (simp add: multi_forward_def g case_prod_beta)
qed

lemma from_bytes_no_records:
  assumes "answers p = []" and "authorities p = []" and "additionals p = []"
  shows "from_bytes (to_bytes p) \<noteq> Panic"
proof -
  let ?b = "to_bytes p"
  obtain ext where b: "?b = be_bytes 2 (h_id (header p)) @ be_bytes 2 (h_flags (header p)) @
     be_bytes 2 (of_nat (length (questions p)) :: u16) @ be_bytes 2 (0 :: u16) @ be_bytes 2 (0 :: u16) @
     be_bytes 2 (0 :: u16) @ ext"
    using to_bytes_header [of p] assms by auto
  have len: "12 \<le> length ?b" by (simp add: b)
  have z: "read_u16 ?b 6 = Ok 0" "read_u16 ?b 8 = Ok 0" "read_u16 ?b 10 = Ok 0"
    by (rule at_read_u16, simp add: at_def b)+
  have r: "read_u16 ?b k \<noteq> Panic" if "k \<le> 10" for k
    using that len by (auto simp: read_u16_def)
  show ?thesis
    using len by (auto simp: from_bytes_def obind_eq_Panic r z parse_questions_not_Panic split: prod.splits)
qed

lemma replay_Ok: "from_bytes raw \<noteq> Panic \<Longrightarrow> \<exists>bs. replay raw request tr = Ok bs"
  by (cases tr; cases "from_bytes raw") (simp_all add: replay_def)

lemma local_response_Ok: "visits_all e \<Longrightarrow> \<exists>resp. local_response e request st = Ok resp"
  using apply_dnssec_Ok [of e]
  by (auto simp: local_response_def Let_def obind_eq_Ok split: list.split option.split)

lemma leader_reply_Ok:
  assumes "harmless net" and "\<not> is_sentinel (ctx_upstream ctx)" and "s_forwarder st \<noteq> None"
  shows "\<exists>bs. fst (leader_reply e net ctx st w) = Ok bs"
proof -
  obtain mf where mf: "s_forwarder st = Some mf" using assms(3) by blast
  obtain res st1 w1 where u: "upstream_result e net ctx st w = (res, st1, w1)" by (metis prod_cases3)
  have "fst (upstream_result e net ctx st w) = fst (multi_forward net (ctx_raw ctx) (ctx_upstream ctx) mf w)"
    using assms(2) mf by (simp add: upstream_result_def case_prod_beta)
  then have calm: "calm res" using multi_forward_calm [OF assms(1)] u by (metis fst_conv)
  have servfail: "from_bytes (to_bytes (synth_response (ctx_request ctx) [] RCODE_SERVFAIL)) \<noteq> Panic"
    by (rule from_bytes_no_records) (simp_all add: synth_response_def)
  obtain raw where raw: "fst (forward_and_cache e net ctx st w) = Ok raw" "from_bytes raw \<noteq> Panic"
  proof (cases res)
    case (Ok bs)
    have "from_bytes bs \<noteq> Panic" using calm Ok by (simp add: calm_def)
    then have "fst (forward_and_cache e net ctx st w) = Ok bs"
      by (cases "from_bytes bs") (simp_all add: forward_and_cache_def u Ok split: option.split)
    with \<open>from_bytes bs \<noteq> Panic\<close> that show ?thesis by blast
  next
    case (Err x)
    then have "fst (forward_and_cache e net ctx st w) = Ok (to_bytes (synth_response (ctx_request ctx) [] RCODE_SERVFAIL))"
      by (simp add: forward_and_cache_def u)
    with servfail that show ?thesis by blast
  qed (use calm in \<open>simp add: calm_def\<close>)
  from replay_Ok [OF raw(2)] obtain bs where "replay raw (ctx_request ctx) (ctx_transport ctx) = Ok bs" by blast
  with raw(1) show ?thesis by (auto simp: leader_reply_def case_prod_beta)
qed

lemma unknown_name_Ok:
  assumes "cache_parses (s_cache st)"
  shows "\<exists>r. fst (unknown_name e req request q resp tr st) = Ok r"
proof -
  obtain cached c where c: "cache_get (cache_clock e) (to_lowercase (qname q)) (qtype q) (s_cache st) = (cached, c)"
    by fastforce
  show ?thesis
  proof (cases cached)
    case (Some raw)
    from cache_get_parses [OF assms] c Some obtain p where "from_bytes raw = Ok p" by (metis fst_conv)
    then have "from_bytes raw \<noteq> Panic" by simp
    from replay_Ok [OF this] obtain bs where "replay raw request tr = Ok bs" by blast
    then show ?thesis by (simp add: unknown_name_def Let_def c Some)
  qed (simp add: unknown_name_def Let_def c split: option.split)
qed

lemma resolve_local_Ok:
  assumes "cache_parses (s_cache st)" and "visits_all e" and "from_bytes req \<noteq> Panic"
  shows "\<exists>r. fst (resolve_local e req ip tr st) = Ok r"
proof (cases "from_bytes req")
  case (Ok request)
  from local_response_Ok [OF assms(2)] obtain resp where "local_response e request st = Ok resp" by blast
  then show ?thesis
    using unknown_name_Ok [of "after_limiter e ip st" e req request _ resp tr] assms(1)
    by (simp add: resolve_local_eq Let_def Ok local_answer_def split: option.split)
qed (use assms(3) in \<open>simp_all add: resolve_local_eq Let_def\<close>)

lemma unknown_name_Forward:
  "fst (unknown_name e req request q resp tr st) = Ok (Forward ctx) \<Longrightarrow>
     match_name (s_forward_rules st) (ctx_name ctx) = Some (ctx_upstream ctx) \<or> s_recursive st \<noteq> None"
  by (auto simp: unknown_name_def Let_def obind_eq_Ok split: prod.splits option.splits if_splits)

lemma resolve_local_Forward:
  assumes "fst (resolve_local e req ip tr st) = Ok (Forward ctx)"
  shows "match_name (s_forward_rules st) (ctx_name ctx) = Some (ctx_upstream ctx) \<or> s_recursive st \<noteq> None"
  using assms unknown_name_Forward [where st = "after_limiter e ip st" and ctx = ctx]
  by (auto simp: resolve_local_eq Let_def local_answer_def split: if_splits outcome.splits option.splits)

lemma try_axfr_Ok:
  assumes "server_inv st" and "from_bytes req \<noteq> Panic"
  shows "\<exists>r. fst (try_axfr e req ip st) = Ok r"
proof -
  have "is_allowed (s_axfr_acl st) ip = Ok (list_ex (in_network ip) (acl_entries (s_axfr_acl st)))"
    using assms(1) any_matches_wf by (simp add: server_inv_def is_allowed_def)
  then show ?thesis
    using assms(2)
    by (cases "from_bytes req") (simp_all add: try_axfr_def Let_def split: list.split option.split bool.split)
qed

lemma resolve_after_axfr:
  assumes "server_inv st" and "visits_all e" and "from_bytes req \<noteq> Panic" and "harmless net"
    and "s_recursive st = None" and "\<And>n. match_name (s_forward_rules st) n \<noteq> Some sentinel"
  shows "\<exists>r. fst (case resolve_local e req ip tr st of
             (Ok (Ready bs), st2) \<Rightarrow> (Ok (Some bs), st2, w)
           | (Ok Drop, st2) \<Rightarrow> (Ok None, st2, w)
           | (Ok (Forward ctx), st2) \<Rightarrow>
               (let (res, st3, w') = leader_reply e net ctx st2 w in (obind res (\<lambda>bs. Ok (Some bs)), st3, w'))
           | (Err x, st2) \<Rightarrow> (Err x, st2, w)
           | (Panic, st2) \<Rightarrow> (Panic, st2, w)) = Ok r"
proof -
  have "cache_parses (s_cache st)" using assms(1) by (simp add: server_inv_def)
  from resolve_local_Ok [OF this assms(2,3)] obtain r where "fst (resolve_local e req ip tr st) = Ok r" by blast
  then obtain st2 where r: "resolve_local e req ip tr st = (Ok r, st2)" by (metis prod.collapse)
  show ?thesis
  proof (cases r)
    case (Forward ctx)
    have m: "match_name (s_forward_rules st) (ctx_name ctx) = Some (ctx_upstream ctx)"
      using resolve_local_Forward [of e req ip tr st ctx] r Forward assms(5) by simp
    have "\<not> is_sentinel (ctx_upstream ctx)" using m assms(6) [of "ctx_name ctx"] by (auto simp: is_sentinel_def sentinel_def)
    moreover have "server_inv st2" using resolve_local_inv [OF assms(1)] r by (metis snd_conv)
    moreover have "same_setup st st2" using resolve_local_setup r by (metis snd_conv)
    ultimately have "s_forwarder st2 \<noteq> None" using m by (auto simp: server_inv_def same_setup_def)
    from leader_reply_Ok [OF assms(4) \<open>\<not> is_sentinel (ctx_upstream ctx)\<close> this, of e w]
    show ?thesis by (auto simp: r Forward case_prod_beta)
  qed (simp_all add: r)
qed

lemma state_resolve_Ok:
  assumes inv: "server_inv st" and "s_recursive st = None" and "\<And>n. match_name (s_forward_rules st) n \<noteq> Some sentinel"
    and "visits_all e" and "harmless net" and "from_bytes req \<noteq> Panic"
  shows "\<exists>r. fst (state_resolve e net req ip tr st w) = Ok r"
proof -
  define ax where "ax = (if tr = Tcp then try_axfr e req ip st else (Ok None, st))"
  have inv1: "server_inv (snd ax)" using try_axfr_inv [OF inv] inv by (simp add: ax_def)
  have "same_setup st (snd ax)" using try_axfr_setup [of st e req ip] by (simp add: ax_def same_setup_def)
  then have kept: "s_recursive (snd ax) = None" "s_forward_rules (snd ax) = s_forward_rules st"
    using assms(2) by (simp_all add: same_setup_def)
  obtain ax' where "fst ax = Ok ax'" using try_axfr_Ok [OF inv assms(6), of e ip] by (cases tr) (auto simp: ax_def)
  then have ax: "ax = (Ok ax', snd ax)" by (metis prod.collapse)
  have "\<And>n. match_name (s_forward_rules (snd ax)) n \<noteq> Some sentinel" using assms(3) kept(2) by simp
  note rest = resolve_after_axfr [OF inv1 assms(4,6,5) kept(1) this, where ip = ip and tr = tr and w = w]
  show ?thesis
    unfolding state_resolve_def ax_def [symmetric]
    using rest by (subst ax) (cases ax'; simp)
qed


text \<open>The state a whole request leaves behind.\<close>

lemma leader_reply_state: "fst (snd (leader_reply e net ctx st w)) = fst (snd (forward_and_cache e net ctx st w))"
  by (simp add: leader_reply_def case_prod_beta)

lemma state_resolve_state:
  assumes st1: "st1 = (if tr = Tcp then snd (try_axfr e req ip st) else st)"
  obtains "fst (snd (state_resolve e net req ip tr st w)) = st1"
    | "fst (snd (state_resolve e net req ip tr st w)) = snd (resolve_local e req ip tr st1)"
    | ctx where "fst (snd (state_resolve e net req ip tr st w))
        = fst (snd (forward_and_cache e net ctx (snd (resolve_local e req ip tr st1)) w))"
proof -
  obtain x y where ax: "(if tr = Tcp then try_axfr e req ip st else (Ok None, st)) = (x, y)" by fastforce
  then have y: "y = st1" by (auto simp: st1 split: if_splits)
  obtain r st2 where r: "resolve_local e req ip tr st1 = (r, st2)" by fastforce
  have eq: "state_resolve e net req ip tr st w =
     (case (x, st1) of
        (Ok (Some resp), st1) \<Rightarrow> (Ok (Some resp), st1, w)
      | (Err x, st1) \<Rightarrow> (Err x, st1, w)
      | (Panic, st1) \<Rightarrow> (Panic, st1, w)
      | (Ok None, st1) \<Rightarrow>
          (case (r, st2) of
             (Ok (Ready bs), st2) \<Rightarrow> (Ok (Some bs), st2, w)
           | (Ok Drop, st2) \<Rightarrow> (Ok None, st2, w)
           | (Ok (Forward ctx), st2) \<Rightarrow>
               (let (res, st3, w') = leader_reply e net ctx st2 w in (obind res (\<lambda>bs. Ok (Some bs)), st3, w'))
           | (Err x, st2) \<Rightarrow> (Err x, st2, w)
           | (Panic, st2) \<Rightarrow> (Panic, st2, w)))"
    unfolding state_resolve_def ax y r [symmetric] by (cases x) (simp_all split: option.split)
  show thesis
  proof (cases x)
    case (Ok ans)
    show thesis
    proof (cases ans)
      case None
      show thesis
      proof (cases r)
        case res: (Ok res)
        show thesis
          using that unfolding eq Ok None res r by (cases res) (simp_all add: case_prod_beta leader_reply_state)
      qed (use that in \<open>simp_all add: eq Ok None r\<close>)
    qed (use that in \<open>simp add: eq Ok\<close>)
  qed (use that in \<open>simp_all add: eq\<close>)
qed

lemma state_resolve_inv:
  assumes inv: "server_inv st" and e: "env_ok e"
  shows "server_inv (fst (snd (state_resolve e net req ip tr st w)))"
proof -
  define st1 where "st1 = (if tr = Tcp then snd (try_axfr e req ip st) else st)"
  have 1: "server_inv st1" using try_axfr_inv [OF inv] inv by (simp add: st1_def)
  have 2: "server_inv (snd (resolve_local e req ip tr st1))" by (rule resolve_local_inv [OF 1])
  show ?thesis
    by (rule state_resolve_state [OF st1_def, of net w]) (simp_all only: 1 2 forward_and_cache_inv [OF 2 e])
qed

lemma state_resolve_setup: "same_setup st (fst (snd (state_resolve e net req ip tr st w)))"
proof -
  define st1 where "st1 = (if tr = Tcp then snd (try_axfr e req ip st) else st)"
  have 1: "same_setup st st1" using try_axfr_setup [of st e req ip] by (simp add: st1_def same_setup_def)
  have 2: "same_setup st (snd (resolve_local e req ip tr st1))" by (rule same_setup_trans [OF 1 resolve_local_setup])
  show ?thesis
    by (rule state_resolve_state [OF st1_def, of net w])
       (simp_all only: 1 2 same_setup_trans [OF 2 forward_and_cache_setup])
qed

text \<open>Witnesses: the servers of the theory \<open>Startup\<close>, on a network that is dead.\<close>

definition calm_env :: env where
  "calm_env = sample_env\<lparr>first_key := \<lambda>m. case m of [] \<Rightarrow> None | (k, _) # _ \<Rightarrow> Some k\<rparr>"

lemma calm_env_ok: "env_ok calm_env"
  by (auto simp: env_ok_def calm_env_def sample_env_def SHARDS_def iterates_def visits_all_def split: list.split)

definition one_query_later :: "unit server_state" where
  "one_query_later = snd (resolve_local calm_env (sample_query 97) (V4 1) Udp (sample_started False False))"

lemma one_query_later_reached:
  "(server_step dead_net)\<^sup>*\<^sup>* (sample_started False False) one_query_later"
  by (rule r_into_rtranclp, rule server_step.query [OF calm_env_ok]) (simp add: one_query_later_def prod_eq_iff)



end
