(* ===== verification/Accounting.thy ===== *)
theory Accounting
  imports Server_Inv
begin

text \<open>
  The counters account for every query: each first pass counts in the total and in exactly one of
  the outcomes, or is handed on to be forwarded.
\<close>

section \<open>One query\<close>

text \<open>The event that counts the outcome of a first pass.\<close>

definition handled :: "metrics \<Rightarrow> u64" where
  "handled m = authoritative_count m + cache_hits m + rate_limited m + blocked m + errors m"

definition is_forward :: "resolution io_result \<Rightarrow> bool" where
  "is_forward r \<longleftrightarrow> (case r of Ok (Forward _) \<Rightarrow> True | _ \<Rightarrow> False)"

lemma handled_event:
  "handled m = count_event Authoritative m + count_event Cache_hit m + count_event Rate_limited m +
     count_event Blocked m + count_event Errored m"
  by (simp add: handled_def)

definition outcomes :: "event set" where
  "outcomes = {Authoritative, Cache_hit, Rate_limited, Blocked, Errored}"

lemma handled_inc:
  assumes "wf_metrics m" and "i < SHARDS"
  shows "handled (inc_event ev i m) = handled m + (if ev \<in> outcomes then 1 else 0)"
  unfolding handled_event count_inc_event [OF assms] by (cases ev) (simp_all add: outcomes_def)

lemma unknown_name_event:
  assumes "fst (unknown_name e req request q resp tr st) = Ok r"
  shows "if is_forward (Ok r) then s_metrics (snd (unknown_name e req request q resp tr st)) = s_metrics st
    else \<exists>ev \<in> outcomes. s_metrics (snd (unknown_name e req request q resp tr st)) = inc_event ev (shard e) (s_metrics st)"
proof -
  obtain cached c where c: "cache_get (cache_clock e) (to_lowercase (qname q)) (qtype q) (s_cache st) = (cached, c)"
    by fastforce
  have out: "Authoritative \<in> outcomes" "Cache_hit \<in> outcomes" by (simp_all add: outcomes_def)
  have "\<exists>ev \<in> outcomes. inc_authoritative (shard e) (s_metrics st) = inc_event ev (shard e) (s_metrics st)"
    "\<exists>ev \<in> outcomes. inc_cache_hit (shard e) (s_metrics st) = inc_event ev (shard e) (s_metrics st)"
    using out by (metis inc_event.simps(2), metis inc_event.simps(3))
  then show ?thesis
    using assms
    by (auto simp: unknown_name_def Let_def c is_forward_def obind_eq_Ok split: option.splits if_splits)
qed

lemma resolve_local_event:
  assumes "fst (resolve_local e req ip tr st) = Ok r"
  shows "if is_forward (Ok r) then s_metrics (snd (resolve_local e req ip tr st)) = inc_total (shard e) (s_metrics st)
    else \<exists>ev \<in> outcomes. s_metrics (snd (resolve_local e req ip tr st)) = inc_event ev (shard e) (inc_total (shard e) (s_metrics st))"
proof -
  have out: "\<exists>ev \<in> outcomes. inc_authoritative (shard e) m = inc_event ev (shard e) m"
    "\<exists>ev \<in> outcomes. inc_rate_limited (shard e) m = inc_event ev (shard e) m"
    "\<exists>ev \<in> outcomes. inc_blocked (shard e) m = inc_event ev (shard e) m"
    "\<exists>ev \<in> outcomes. inc_error (shard e) m = inc_event ev (shard e) m" for m
    by (simp_all add: outcomes_def)
  note un = unknown_name_event [where st = "after_limiter e ip st"]
  show ?thesis
  proof (cases "from_bytes req")
    case (Ok request)
    show ?thesis
    proof (cases "local_response e request st")
      case resp: (Ok resp)
      show ?thesis
        using assms un [of e req request _ resp tr r] out
        by (auto simp: resolve_local_eq Let_def Ok resp local_answer_def is_forward_def split: option.splits if_splits)
    qed (use assms out in \<open>auto simp: resolve_local_eq Let_def Ok is_forward_def split: if_splits\<close>)
  qed (use assms out in \<open>auto simp: resolve_local_eq Let_def is_forward_def split: if_splits\<close>)
qed



section \<open>All queries\<close>

type_synonym query = "env \<times> bytes \<times> ip_addr \<times> transport"

text \<open>The first passes over a sequence of requests, with what each came to.\<close>

fun query_run :: "query list \<Rightarrow> 's server_state \<Rightarrow> resolution io_result list \<times> 's server_state" where
  "query_run [] st = ([], st)"
| "query_run ((e, req, ip, tr) # qs) st =
     (let (r, st1) = resolve_local e req ip tr st; (rs, st2) = query_run qs st1 in (r # rs, st2))"

lemma query_run_counts:
  assumes "wf_metrics (s_metrics st)" and "\<And>e req ip tr. (e, req, ip, tr) \<in> set qs \<Longrightarrow> shard e < SHARDS"
    and "query_run qs st = (rs, st')" and "list_all is_ok rs"
  shows "total (s_metrics st') = total (s_metrics st) + of_nat (length qs)"
    and "handled (s_metrics st') = handled (s_metrics st) + of_nat (length (filter (\<lambda>r. \<not> is_forward r) rs))"
proof -
  have "total (s_metrics st') = total (s_metrics st) + of_nat (length qs) \<and>
    handled (s_metrics st') = handled (s_metrics st) + of_nat (length (filter (\<lambda>r. \<not> is_forward r) rs))"
    using assms
  proof (induction qs arbitrary: st rs)
    case (Cons q qs)
    obtain e req ip tr where q: "q = (e, req, ip, tr)" by (metis prod_cases4)
    have sh: "shard e < SHARDS" using Cons.prems(2) q by auto
    obtain r st1 where r: "resolve_local e req ip tr st = (r, st1)" by fastforce
    obtain rs' where rs': "query_run qs st1 = (rs', st')" and rs: "rs = r # rs'"
      using Cons.prems(3) q r by (auto simp: case_prod_beta prod_eq_iff)
    obtain x where x: "r = Ok x" using Cons.prems(4) rs by (cases r) auto
    let ?m = "inc_event Total (shard e) (s_metrics st)"
    have m: "wf_metrics ?m" using Cons.prems(1) by (rule wf_inc_event)
    have c: "count_event Total ?m = total (s_metrics st) + 1" "handled ?m = handled (s_metrics st)"
      using count_inc_event [OF Cons.prems(1) sh, of Total Total] handled_inc [OF Cons.prems(1) sh, of Total]
      by (simp_all add: outcomes_def)
    have "if is_forward r then s_metrics st1 = ?m
      else \<exists>ev \<in> outcomes. s_metrics st1 = inc_event ev (shard e) ?m"
      using resolve_local_event [of e req ip tr st x] r x by (simp split: if_splits)
    then consider "is_forward r" "s_metrics st1 = ?m"
      | ev where "\<not> is_forward r" "ev \<in> outcomes" "s_metrics st1 = inc_event ev (shard e) ?m"
      by (auto split: if_splits)
    then have st1: "wf_metrics (s_metrics st1) \<and> total (s_metrics st1) = total (s_metrics st) + 1 \<and>
      handled (s_metrics st1) = handled (s_metrics st) + (if is_forward r then 0 else 1)"
    proof cases
      case 2
      have "count_event Total (inc_event ev (shard e) ?m) = count_event Total ?m"
        using count_inc_event [OF m sh, of Total ev] 2(2) by (auto simp: outcomes_def)
      then show ?thesis
        using 2 c m handled_inc [OF m sh, of ev] by (simp add: wf_inc_event)
    qed (use c m in simp)
    then have "wf_metrics (s_metrics st1)" by blast
    moreover have "shard e' < SHARDS" if "(e', req', ip', tr') \<in> set qs" for e' req' ip' tr'
      using that Cons.prems(2) by (meson list.set_intros(2))
    moreover have "list_all is_ok rs'" using Cons.prems(4) rs by simp
    ultimately have "total (s_metrics st') = total (s_metrics st1) + of_nat (length qs) \<and>
      handled (s_metrics st') = handled (s_metrics st1) + of_nat (length (filter (\<lambda>r. \<not> is_forward r) rs'))"
      using Cons.IH [OF _ _ rs'] by blast
    with rs st1 show ?case by simp
  qed simp
  then show "total (s_metrics st') = total (s_metrics st) + of_nat (length qs)"
    and "handled (s_metrics st') = handled (s_metrics st) + of_nat (length (filter (\<lambda>r. \<not> is_forward r) rs))"
    by simp_all
qed


lemma malformed_dropped:
  "s_limiter st = limiter_disabled \<Longrightarrow>
     resolve_local e [] ip tr st = (Ok Drop, tally inc_error e (after_limiter e ip st)) \<and>
     s_limiter (after_limiter e ip st) = limiter_disabled"
  by (simp add: resolve_local_eq Let_def admitted_def after_limiter_def allow_def limiter_disabled_def limiter_new_def
      from_bytes_def)


end
