(* ===== verification/Zone_Transfer.thy ===== *)
theory Zone_Transfer
  imports Server_Inv
begin

text \<open>
  Zone transfers and DNS64 synthesis of \<^verbatim>\<open>src/state.rs\<close>: what a transfer lists and who gets one, and
  which addresses are synthesised.
\<close>

section \<open>Zone transfers\<close>

lemma mset_by_owner:
  fixes z :: zone
  assumes "wf_zone z" and "mset ks = mset (map fst z)"
  shows "mset (concat (map (\<lambda>k. f (the (map_of z k)) :: 'c list) ks)) = mset (concat (map (f \<circ> snd) z))"
proof -
  have sum: "mset (concat (map g xs)) = sum_mset (image_mset (\<lambda>x. mset (g x)) (mset xs))"
    for g :: "string \<Rightarrow> 'c list" and xs
    by (induction xs) simp_all
  have "the (map_of z (fst p)) = snd p" if "p \<in> set z" for p
  proof (cases p)
    case (Pair k rs)
    then show ?thesis using that assms(1) by (simp add: wf_zone_def)
  qed
  then have "map (\<lambda>k. f (the (map_of z k))) (map fst z) = map (f \<circ> snd) z" by simp
  moreover have "mset (concat (map g ks)) = mset (concat (map g (map fst z)))" for g :: "string \<Rightarrow> 'c list"
    unfolding sum assms(2) ..
  ultimately show ?thesis by metis
qed

lemma axfr_middle:
  assumes "wf_zone z"
  shows "mset (concat (map (\<lambda>owner. filter (\<lambda>r. \<not> is_soa r) (the (map_of z owner))) (sort (map fst z))))
    = mset (filter (\<lambda>r. \<not> is_soa r) (all_records z))"
  using mset_by_owner [OF assms, of "sort (map fst z)" "filter (\<lambda>r. \<not> is_soa r)"]
  by (simp add: all_records_def filter_concat o_def)

text \<open>What a transfer of the zone \<open>z\<close> lists: a SOA record at both ends, and every other record in between.\<close>

definition lists_zone :: "zone \<Rightarrow> dns_record list \<Rightarrow> bool" where
  "lists_zone z rs \<longleftrightarrow>
     (\<exists>soa mid. rs = soa # mid @ [soa] \<and> is_soa soa \<and> soa \<in> set (all_records z) \<and>
        mset mid = mset (filter (\<lambda>r. \<not> is_soa r) (all_records z)))"

lemma axfr_lists_zone:
  assumes "wf_zone z" and "\<exists>r \<in> set (all_records z). is_soa r"
  shows "lists_zone z (axfr_records z)"
proof -
  from assms(2) obtain soa where soa: "List.find is_soa (all_records z) = Some soa"
    by (metis find_None_iff option.exhaust)
  then have mem: "is_soa soa" "soa \<in> set (all_records z)" by (auto simp: find_Some_iff)
  define mid where "mid = concat (map (\<lambda>owner. filter (\<lambda>r. \<not> is_soa r) (the (map_of z owner))) (sort (map fst z)))"
  have "axfr_records z = soa # mid @ [soa]" unfolding axfr_records_def soa mid_def by simp
  moreover have "mset mid = mset (filter (\<lambda>r. \<not> is_soa r) (all_records z))"
    unfolding mid_def by (rule axfr_middle [OF assms(1)])
  ultimately show ?thesis unfolding lists_zone_def using mem by (intro exI conjI)
qed

lemma synth_rcode:
  "h_flags (header (synth_response request ans 5)) AND 0x000F = 5"
  "h_flags (header (synth_response request ans 3)) AND 0x000F = 3"
  unfolding synth_response_def FLAG_RD_def FLAG_RA_def
  by (simp_all add: bit.conj_disj_distrib2 and.assoc)

lemma axfr_flags: "(0x8000 OR (f AND FLAG_RD) OR 0x0400) AND 0x040F = (0x0400 :: u16)"
  by (simp add: bit.conj_disj_distrib2 and.assoc FLAG_RD_def)

text \<open>The answer to a transfer request, by whether the client is allowed and which zone covers the name.\<close>

definition axfr_answer :: "dns_packet \<Rightarrow> bool \<Rightarrow> auth_zone option \<Rightarrow> dns_packet" where
  "axfr_answer request ok zone =
     (if \<not> ok then synth_response request [] 5
      else case zone of None \<Rightarrow> synth_response request [] 3 | Some z \<Rightarrow> axfr_response request (records z))"

lemma try_axfr_answer:
  assumes "from_bytes req = Ok request" and "questions request = q # qs" and "qtype q = TYPE_AXFR"
    and "is_allowed (s_axfr_acl st) ip = Ok ok"
  shows "fst (try_axfr e req ip st)
    = Ok (Some (to_bytes (axfr_answer request ok (zone_set_find (s_zones st) (to_lowercase (qname q))))))"
  unfolding try_axfr_def assms(1) outcome.case assms(2) list.case Let_def assms(4) axfr_answer_def
  using assms(3) by (cases ok) (simp_all split: option.split)

lemma axfr_answer_simps:
  "h_id (header (axfr_answer request ok zone)) = h_id (header request)"
  "answers (axfr_answer request False zone) = []" "answers (axfr_answer request True None) = []"
  "answers (axfr_answer request True (Some z)) = axfr_records (records z)"
  "h_flags (header (axfr_answer request False zone)) AND 0x000F = 5"
  "h_flags (header (axfr_answer request True None)) AND 0x000F = 3"
  "h_flags (header (axfr_answer request True (Some z))) AND 0x040F = 0x0400"
  unfolding axfr_answer_def
  by (simp_all add: synth_rcode)
     (simp_all add: synth_response_def axfr_response_def Let_def axfr_flags split: option.split)

text \<open>
  C12: zone transfers.  A transfer request is answered with no records and REFUSED unless the
  client's address is in the configured networks; then with no records and NXDOMAIN when no zone
  covers the name; else with a listing that has the zone's SOA record at both ends and every other
  record of the zone exactly as often as the zone has it.
\<close>

theorem transfer_reply:
  assumes "from_bytes req = Ok request" and "questions request = q # qs" and "qtype q = TYPE_AXFR"
    and "acl_parse specs = Ok (s_axfr_acl st)"
    and "\<And>z. z \<in> set (zones (s_zones st)) \<Longrightarrow> wf_zone (records z) \<and> (\<exists>r \<in> set (all_records (records z)). is_soa r)"
  shows "\<exists>p. fst (try_axfr e req ip st) = Ok (Some (to_bytes p)) \<and> h_id (header p) = h_id (header request) \<and>
    (if \<not> (\<exists>c \<in> set (acl_entries (s_axfr_acl st)). in_network ip c)
     then answers p = [] \<and> h_flags (header p) AND 0x000F = 5
     else case zone_set_find (s_zones st) (to_lowercase (qname q)) of
         None \<Rightarrow> answers p = [] \<and> h_flags (header p) AND 0x000F = 3
       | Some z \<Rightarrow> lists_zone (records z) (answers p) \<and> h_flags (header p) AND 0x040F = 0x0400)"
proof -
  let ?ok = "\<exists>c \<in> set (acl_entries (s_axfr_acl st)). in_network ip c"
  have acl: "is_allowed (s_axfr_acl st) ip = Ok ?ok"
    using any_matches_wf [OF acl_parse_wf [OF assms(4)]] by (simp add: is_allowed_def list_ex_iff)
  let ?zone = "zone_set_find (s_zones st) (to_lowercase (qname q))"
  have zone: "lists_zone (records z) (axfr_records (records z))" if "?zone = Some z" for z
  proof -
    from that have "z \<in> set (zones (s_zones st))" by (auto simp: zone_set_find_def find_Some_iff)
    from assms(5) [OF this] show ?thesis by (simp only: axfr_lists_zone)
  qed
  show ?thesis
  proof (intro exI conjI)
    show "fst (try_axfr e req ip st) = Ok (Some (to_bytes (axfr_answer request ?ok ?zone)))"
      by (rule try_axfr_answer [OF assms(1-3) acl])
    show "h_id (header (axfr_answer request ?ok ?zone)) = h_id (header request)" by (rule axfr_answer_simps)
    show "if \<not> ?ok then answers (axfr_answer request ?ok ?zone) = [] \<and> h_flags (header (axfr_answer request ?ok ?zone)) AND 0x000F = 5
      else case ?zone of
         None \<Rightarrow> answers (axfr_answer request ?ok ?zone) = [] \<and> h_flags (header (axfr_answer request ?ok ?zone)) AND 0x000F = 3
       | Some z \<Rightarrow> lists_zone (records z) (answers (axfr_answer request ?ok ?zone)) \<and>
           h_flags (header (axfr_answer request ?ok ?zone)) AND 0x040F = 0x0400"
      using zone by (cases ?ok; cases ?zone) (simp_all only: axfr_answer_simps if_True if_False simp_thms option.case)
  qed
qed

text \<open>A zone with a SOA record and two names, and a server that allows transfers to one network.\<close>

definition transfer_zone :: zone where
  "transfer_zone = [(''b.e'', [A ''b.e'' 1 60]), (''e'', [SOA ''e'' ''m'' ''r'' 1 2 3 4 5 60, A ''e'' 2 60])]"

definition transfer_server :: "unit server_state" where
  "transfer_server = with_axfr_acl (authoritative_server (zone_set_from_single ''e'' transfer_zone))
     (case acl_parse [''10.0.0.0/8''] of Ok a \<Rightarrow> a | _ \<Rightarrow> deny_all)"

definition transfer_query :: bytes where
  "transfer_query = [0, 9, 0, 0, 0, 1, 0, 0, 0, 0, 0, 0, 1, 101, 0, 0, 252, 0, 1]"

definition transfer_request :: dns_packet where
  "transfer_request = \<lparr>header = \<lparr>h_id = 9, h_flags = 0, h_questions = 1, h_answers = 0, h_authorities = 0,
     h_additionals = 0\<rparr>, questions = [\<lparr>qname = ''e'', qtype = 252, qclass = 1\<rparr>], answers = [], authorities = [],
     additionals = []\<rparr>"

theorem transfer_reply_witness:
  "(\<exists>p. fst (try_axfr calm_env transfer_query (V4 0x0A000001) transfer_server) = Ok (Some (to_bytes p)) \<and>
      lists_zone transfer_zone (answers p)) \<and>
   (\<exists>p. fst (try_axfr calm_env transfer_query (V4 0x0B000001) transfer_server) = Ok (Some (to_bytes p)) \<and>
      answers p = [] \<and> h_flags (header p) AND 0x000F = 5)"
proof -
  have req: "from_bytes transfer_query = Ok transfer_request" by code_simp
  have q: "questions transfer_request = [\<lparr>qname = ''e'', qtype = 252, qclass = 1\<rparr>]" by (simp add: transfer_request_def)
  have t: "qtype \<lparr>qname = ''e'', qtype = 252, qclass = 1\<rparr> = TYPE_AXFR" by (simp add: type_codes)
  have acl: "acl_parse [''10.0.0.0/8''] = Ok (s_axfr_acl transfer_server)" by code_simp
  have zs: "zones (s_zones transfer_server) = [\<lparr>origin = ''e'', records = transfer_zone\<rparr>]"
    by (simp add: transfer_server_def with_axfr_acl_def authoritative_server_def server_new_def zone_set_from_single_def)
  have z: "wf_zone (records y) \<and> (\<exists>r \<in> set (all_records (records y)). is_soa r)"
    if "y \<in> set (zones (s_zones transfer_server))" for y
    using that by (auto simp: zs transfer_zone_def wf_zone_def all_records_def)
  note reply = transfer_reply [OF req q t acl z, where e = calm_env]
  have n: "list_ex (in_network (V4 0x0A000001)) (acl_entries (s_axfr_acl transfer_server))"
    "\<not> list_ex (in_network (V4 0x0B000001)) (acl_entries (s_axfr_acl transfer_server))" by code_simp+
  have f: "zone_set_find (s_zones transfer_server) (to_lowercase ''e'') = Some \<lparr>origin = ''e'', records = transfer_zone\<rparr>"
    by code_simp
  show ?thesis
  proof
    show "\<exists>p. fst (try_axfr calm_env transfer_query (V4 0x0A000001) transfer_server) = Ok (Some (to_bytes p)) \<and>
      lists_zone transfer_zone (answers p)"
      using reply [where ip = "V4 0x0A000001"] n(1) unfolding list_ex_iff
      by (simp only: if_False not_True_eq_False dns_question.select_convs f option.case auth_zone.select_convs) blast
    show "\<exists>p. fst (try_axfr calm_env transfer_query (V4 0x0B000001) transfer_server) = Ok (Some (to_bytes p)) \<and>
      answers p = [] \<and> h_flags (header p) AND 0x000F = 5"
      using reply [where ip = "V4 0x0B000001"] n(2) unfolding list_ex_iff by (simp only: if_True not_False_eq_True) blast
  qed
qed


section \<open>DNS64\<close>

lemma be_word_append: "(be_word (xs @ ys) :: 'a::len word) = push_bit (8 * length ys) (be_word xs) OR be_word ys"
proof (induction ys rule: rev_induct)
  case (snoc y ys)
  then show ?case
    using be_word_snoc [of "xs @ ys" y, where ?'a = 'a] be_word_snoc [of ys y, where ?'a = 'a]
    by (simp add: push_bit_or or.assoc add.commute)
qed simp

lemma be_word_ucast:
  "8 * length bs \<le> LENGTH('a) \<Longrightarrow> (be_word bs :: 'b::len word) = ucast (be_word bs :: 'a::len word)"
proof (induction bs rule: rev_induct)
  case (snoc b bs)
  then have IH: "(be_word bs :: 'b word) = ucast (be_word bs :: 'a word)" by simp
  show ?case
    unfolding be_word_snoc IH using snoc.prems
    by (intro bit_word_eqI) (auto simp: bit_simps dest: bit_byte, (drule bit_be_word, linarith)+)
qed simp

text \<open>The synthesised address: the prefix in the upper 96 bits, the IPv4 address in the lower 32.\<close>

lemma dns64_address:
  fixes pfx :: ipv6 and v4 :: ipv4
  defines "a \<equiv> (be_word (take 12 (octets6 pfx) @ octets4 v4) :: ipv6)"
  shows "ucast a = v4" and "drop_bit 32 a = drop_bit 32 pfx"
proof -
  let ?hi = "be_word (take 12 (octets6 pfx)) :: ipv6"
  have lo: "(be_word (octets4 v4) :: ipv6) = ucast v4"
    using be_word_ucast [of "octets4 v4", where ?'a = 32 and ?'b = 128] by simp
  have a: "a = push_bit 32 ?hi OR ucast v4"
    unfolding a_def be_word_append by (simp add: lo)
  have "pfx = be_word (take 12 (octets6 pfx) @ drop 12 (octets6 pfx))" by simp
  also have "\<dots> = push_bit 32 ?hi OR be_word (drop 12 (octets6 pfx))" unfolding be_word_append by simp
  finally have pfx: "pfx = push_bit 32 ?hi OR be_word (drop 12 (octets6 pfx))" .
  have low: "bit (be_word (drop 12 (octets6 pfx)) :: ipv6) i \<Longrightarrow> i < 32" for i
    using bit_be_word [of "drop 12 (octets6 pfx)" i, where ?'a = 128] by simp
  show "ucast a = v4" unfolding a by (rule bit_word_eqI) (auto simp: bit_simps)
  show "drop_bit 32 a = drop_bit 32 pfx"
    unfolding a by (subst pfx, rule bit_word_eqI) (auto simp: bit_simps dest: low bit_imp_le_length)
qed

text \<open>What an answer synthesised for the A record \<open>r\<close> is.\<close>

definition embeds :: "ipv6 \<Rightarrow> string \<Rightarrow> dns_record \<Rightarrow> dns_record \<Rightarrow> bool" where
  "embeds pfx name r s \<longleftrightarrow>
     (\<exists>d v4 t v6. r = A d v4 t \<and> s = AAAA name v6 t \<and> ucast v6 = v4 \<and> drop_bit 32 v6 = drop_bit 32 pfx)"

lemma is_a_record: "record_type r = TYPE_A \<longleftrightarrow> (\<exists>d v4 t. r = A d v4 t)"
  by (cases r) (simp_all add: type_codes)

lemma dns64_records:
  "\<forall>r \<in> set rs. record_type r = TYPE_A \<Longrightarrow>
     list_all2 (embeds pfx name) rs (List.map_filter (dns64_record pfx name) rs)"
proof (induction rs)
  case (Cons r rs)
  then obtain d v4 t where r: "r = A d v4 t" using is_a_record by (metis list.set_intros(1))
  have "embeds pfx name r (synthesize_aaaa pfx v4 t name)"
    using dns64_address [of pfx v4] by (auto simp: embeds_def r synthesize_aaaa_def)
  then show ?case using Cons by (simp add: r List.map_filter_simps)
qed (simp add: List.map_filter_simps)

text \<open>
  C38: DNS64.  A question for AAAA records that the zones answer with none, at a name with A records,
  is answered with one AAAA record per A record, in order, with the same time to live, the prefix
  in the upper 96 bits of the address and the IPv4 address in the lower 32; the response is
  NOERROR and authoritative.
\<close>

theorem dns64_answers:
  assumes "zone_set_find zs (to_lowercase qn) = Some z"
    and "map_of (records z) (to_lowercase qn) = Some rs" and "\<exists>r \<in> set rs. record_type r = TYPE_A"
    and "\<forall>r \<in> set (answers resp). record_type r \<noteq> TYPE_AAAA"
  shows "list_all2 (embeds pfx (to_lowercase qn)) (filter (\<lambda>r. record_type r = TYPE_A) rs)
      (answers (apply_dns64 resp zs qn pfx)) \<and>
    authorities (apply_dns64 resp zs qn pfx) = [] \<and>
    h_flags (header (apply_dns64 resp zs qn pfx)) AND 0x040F = 0x0400"
proof -
  let ?as = "filter (\<lambda>r. record_type r = TYPE_A) rs"
  have ne: "?as \<noteq> []" using assms(3) by (auto simp: filter_empty_conv)
  have no: "\<not> list_ex (\<lambda>r. record_type r = TYPE_AAAA) (answers resp)" using assms(4) by (auto simp: list_ex_iff)
  have eq: "apply_dns64 resp zs qn pfx =
      (let synthesized = List.map_filter (dns64_record pfx (to_lowercase qn)) ?as in
       resp\<lparr>answers := synthesized, authorities := [],
            header := (header resp)\<lparr>
              h_flags := (h_flags (header resp) AND NOT 0x000F) OR 0x0400,
              h_answers := of_nat (length synthesized), h_authorities := 0\<rparr>\<rparr>)"
    unfolding apply_dns64_def if_not_P [OF no] Let_def assms(1,2) option.case if_not_P [OF ne] ..
  have flags: "((f AND NOT 0x000F) OR 0x0400) AND 0x040F = (0x0400 :: u16)" for f
  proof -
    have "(f AND NOT 0x000F) AND 0x040F = f AND (0x0400 :: u16)" by (simp add: and.assoc)
    moreover have "(f AND 0x0400) OR 0x0400 = (0x0400 :: u16)" by (simp add: bit.disj_conj_distrib)
    ultimately show ?thesis by (simp add: bit.conj_disj_distrib2)
  qed
  have "list_all2 (embeds pfx (to_lowercase qn)) ?as (List.map_filter (dns64_record pfx (to_lowercase qn)) ?as)"
    by (rule dns64_records) simp
  then show ?thesis unfolding eq Let_def by (simp add: flags [simplified])
qed

theorem dns64_answers_witness:
  "list_all2 (embeds DNS64_WELL_KNOWN_PREFIX ''e'') [A ''e'' 2 60]
     (answers (apply_dns64 transfer_request (zone_set_from_single ''e'' transfer_zone) ''E'' DNS64_WELL_KNOWN_PREFIX))"
proof -
  have n: "to_lowercase ''E'' = ''e''" by code_simp
  have z: "zone_set_find (zone_set_from_single ''e'' transfer_zone) (to_lowercase ''E'')
      = Some \<lparr>origin = ''e'', records = transfer_zone\<rparr>" by code_simp
  have m: "map_of (records \<lparr>origin = ''e'', records = transfer_zone\<rparr>) (to_lowercase ''E'')
      = Some [SOA ''e'' ''m'' ''r'' 1 2 3 4 5 60, A ''e'' 2 60]"
    by (simp add: n transfer_zone_def)
  have "\<exists>r \<in> set [SOA ''e'' ''m'' ''r'' 1 2 3 4 5 60, A ''e'' 2 60]. record_type r = TYPE_A"
    "\<forall>r \<in> set (answers transfer_request). record_type r \<noteq> TYPE_AAAA"
    by (simp_all add: transfer_request_def)
  from dns64_answers [OF z m this, of DNS64_WELL_KNOWN_PREFIX, THEN conjunct1] show ?thesis
    by (simp add: n type_codes)
qed

end
