(* ===== verification/Single_Flight.thy ===== *)
theory Single_Flight
  imports State
begin

text \<open>
  Coalescing of identical queries, \<^verbatim>\<open>forward_ctx\<close> of \<^verbatim>\<open>src/state.rs\<close>: the first task for a name and
  type leads and asks upstream, tasks that come while it is in flight follow and share its reply.
  Tasks are interleaved at their suspension points; a task may also be cancelled at one.  A watch
  channel is its value and whether its sender is alive.

  Shown: one task at a time asks upstream for a name and type; a follower is never left waiting;
  and what a task replies is what an upstream query for its own name and type returned, or
  SERVFAIL.
\<close>

section \<open>Tasks\<close>

type_synonym flight_key = "string \<times> u16"

record channel =
  sent :: "bytes option"
  sender :: bool
  topic :: flight_key
    \<comment> \<open>the key the channel was made for, which the code does not store\<close>

datatype task =
    Leading nat forward_ctx
      \<comment> \<open>asking upstream, with the guard and the sender of a channel\<close>
  | Published nat forward_ctx bytes
      \<comment> \<open>has sent the reply\<close>
  | Dropping nat forward_ctx "bytes io_result option"
      \<comment> \<open>has dropped the guard, not yet the sender\<close>
  | Waiting nat forward_ctx
      \<comment> \<open>a follower, with a receiver of a channel\<close>
  | Finished forward_ctx "bytes io_result option"
      \<comment> \<open>with its reply, or cancelled\<close>

record ('s, 'w) flight =
  sv :: "'s server_state"
  wd :: 'w
  inflight :: "(flight_key, nat) dash_map"
  chans :: "nat \<Rightarrow> channel option"
  tasks :: "nat \<Rightarrow> task option"
  asked :: "(flight_key \<times> bytes) list"
    \<comment> \<open>what upstream queries have returned so far\<close>

definition key_of :: "forward_ctx \<Rightarrow> flight_key" where
  "key_of ctx = (ctx_name ctx, ctx_qtype ctx)"

definition set_task :: "nat \<Rightarrow> task \<Rightarrow> ('s, 'w) flight \<Rightarrow> ('s, 'w) flight" where
  "set_task t s f = f\<lparr>tasks := (tasks f)(t \<mapsto> s)\<rparr>"

text \<open>The match on the entry of the map of queries in flight, for a task \<open>t\<close> and, if needed, a new channel \<open>c\<close>.\<close>

definition enter :: "env \<Rightarrow> nat \<Rightarrow> nat \<Rightarrow> forward_ctx \<Rightarrow> ('s, 'w) flight \<Rightarrow> ('s, 'w) flight" where
  "enter e t c ctx f =
     (case map_of (inflight f) (key_of ctx) of
        Some c' \<Rightarrow> set_task t (Waiting c' ctx) (f\<lparr>sv := tally inc_coalesced e (sv f)\<rparr>)
      | None \<Rightarrow>
          set_task t (Leading c ctx)
            (f\<lparr>inflight := dm_insert (key_of ctx) c (inflight f),
               chans := (chans f)(c \<mapsto> \<lparr>sent = None, sender = True, topic = key_of ctx\<rparr>)\<rparr>))"

text \<open>The drop of the guard, with the result the task unwinds or returns with.\<close>

definition drop_guard ::
    "nat \<Rightarrow> nat \<Rightarrow> forward_ctx \<Rightarrow> bytes io_result option \<Rightarrow> ('s, 'w) flight \<Rightarrow> ('s, 'w) flight" where
  "drop_guard t c ctx r f =
     set_task t (Dropping c ctx r) (f\<lparr>inflight := dm_remove (key_of ctx) (inflight f)\<rparr>)"

definition lead ::
    "env \<Rightarrow> ('s, 'w) net \<Rightarrow> nat \<Rightarrow> nat \<Rightarrow> forward_ctx \<Rightarrow> ('s, 'w) flight \<Rightarrow> ('s, 'w) flight" where
  "lead e net t c ctx f =
     (case forward_and_cache e net ctx (sv f) (wd f) of
        (Ok raw, st, w) \<Rightarrow>
          set_task t (Published c ctx raw)
            (f\<lparr>sv := st, wd := w, chans := (chans f)(c \<mapsto> \<lparr>sent = Some raw, sender = True, topic = key_of ctx\<rparr>),
               asked := asked f @ [(key_of ctx, raw)]\<rparr>)
      | (_, st, w) \<Rightarrow> drop_guard t c ctx None (f\<lparr>sv := st, wd := w\<rparr>))"

definition return_reply :: "nat \<Rightarrow> nat \<Rightarrow> forward_ctx \<Rightarrow> bytes \<Rightarrow> ('s, 'w) flight \<Rightarrow> ('s, 'w) flight" where
  "return_reply t c ctx raw f = drop_guard t c ctx (Some (replay raw (ctx_request ctx) (ctx_transport ctx))) f"

definition drop_sender ::
    "nat \<Rightarrow> nat \<Rightarrow> forward_ctx \<Rightarrow> bytes io_result option \<Rightarrow> ('s, 'w) flight \<Rightarrow> ('s, 'w) flight" where
  "drop_sender t c ctx r f =
     set_task t (Finished ctx r) (f\<lparr>chans := (chans f)(c := map_option (\<lambda>ch. ch\<lparr>sender := False\<rparr>) (chans f c))\<rparr>)"

text \<open>One turn of the follower's loop: the value if there is one, the end if the sender is gone, else wait.\<close>

definition poll :: "nat \<Rightarrow> nat \<Rightarrow> forward_ctx \<Rightarrow> ('s, 'w) flight \<Rightarrow> ('s, 'w) flight" where
  "poll t c ctx f =
     (case chans f c of
        Some ch \<Rightarrow>
          (case sent ch of
             Some reply \<Rightarrow> set_task t (Finished ctx (Some (follower_reply (Some reply) ctx))) f
           | None \<Rightarrow> if sender ch then f else set_task t (Finished ctx (Some (follower_reply None ctx))) f)
      | None \<Rightarrow> f)"

definition flight_new :: "'s server_state \<Rightarrow> 'w \<Rightarrow> ('s, 'w) flight" where
  "flight_new st w = \<lparr>sv = st, wd = w, inflight = [], chans = Map.empty, tasks = Map.empty, asked = []\<rparr>"

inductive flight_step :: "('s, 'w) net \<Rightarrow> ('s, 'w) flight \<Rightarrow> ('s, 'w) flight \<Rightarrow> bool" for net where
  arrive: "tasks f t = None \<Longrightarrow> chans f c = None \<Longrightarrow> flight_step net f (enter e t c ctx f)"
| ask: "tasks f t = Some (Leading c ctx) \<Longrightarrow> flight_step net f (lead e net t c ctx f)"
| cancel: "tasks f t = Some (Leading c ctx) \<Longrightarrow> flight_step net f (drop_guard t c ctx None f)"
| reply: "tasks f t = Some (Published c ctx raw) \<Longrightarrow> flight_step net f (return_reply t c ctx raw f)"
| leave: "tasks f t = Some (Dropping c ctx r) \<Longrightarrow> flight_step net f (drop_sender t c ctx r f)"
| turn: "tasks f t = Some (Waiting c ctx) \<Longrightarrow> flight_step net f (poll t c ctx f)"
| abandon: "tasks f t = Some (Waiting c ctx) \<Longrightarrow> flight_step net f (set_task t (Finished ctx None) f)"


section \<open>The invariant\<close>

text \<open>The channel whose guard, whose sender, or whose either end a task has, with the key it was made for.\<close>

fun guards :: "task \<Rightarrow> (nat \<times> flight_key) option" where
  "guards (Leading c ctx) = Some (c, key_of ctx)"
| "guards (Published c ctx raw) = Some (c, key_of ctx)"
| "guards _ = None"

fun sends :: "task \<Rightarrow> (nat \<times> flight_key) option" where
  "sends (Dropping c ctx r) = Some (c, key_of ctx)"
| "sends s = guards s"

fun uses :: "task \<Rightarrow> (nat \<times> flight_key) option" where
  "uses (Waiting c ctx) = Some (c, key_of ctx)"
| "uses s = sends s"

definition good_reply :: "(flight_key \<times> bytes) list \<Rightarrow> forward_ctx \<Rightarrow> bytes io_result \<Rightarrow> bool" where
  "good_reply known ctx r \<longleftrightarrow>
     (\<exists>raw. (key_of ctx, raw) \<in> set known \<and> r = replay raw (ctx_request ctx) (ctx_transport ctx)) \<or>
     r = replay (to_bytes (synth_response (ctx_request ctx) [] RCODE_SERVFAIL)) (ctx_request ctx) (ctx_transport ctx)"

fun good_task :: "(flight_key \<times> bytes) list \<Rightarrow> task \<Rightarrow> bool" where
  "good_task known (Published c ctx raw) \<longleftrightarrow> (key_of ctx, raw) \<in> set known"
| "good_task known (Dropping c ctx (Some r)) \<longleftrightarrow> good_reply known ctx r"
| "good_task known (Finished ctx (Some r)) \<longleftrightarrow> good_reply known ctx r"
| "good_task known _ \<longleftrightarrow> True"

text \<open>
  An entry of the map is there exactly while its leader has the guard; a sender has one owner, and
  is alive exactly while it has; the channels in use exist and carry replies for their own key;
  and every reply is a good one.
\<close>

definition entries_led :: "('s, 'w) flight \<Rightarrow> bool" where
  "entries_led f \<longleftrightarrow>
     (\<forall>k c. map_of (inflight f) k = Some c \<longleftrightarrow> (\<exists>t s. tasks f t = Some s \<and> guards s = Some (c, k)))"

definition sends_on :: "nat \<Rightarrow> task \<Rightarrow> bool" where
  "sends_on c s \<longleftrightarrow> (\<exists>k. sends s = Some (c, k))"

definition one_sender :: "('s, 'w) flight \<Rightarrow> bool" where
  "one_sender f \<longleftrightarrow>
     (\<forall>t t' s s' c. tasks f t = Some s \<longrightarrow> tasks f t' = Some s' \<longrightarrow> sends_on c s \<longrightarrow> sends_on c s' \<longrightarrow> t = t')"

definition senders_alive :: "('s, 'w) flight \<Rightarrow> bool" where
  "senders_alive f \<longleftrightarrow>
     (\<forall>c ch. chans f c = Some ch \<longrightarrow> (sender ch \<longleftrightarrow> (\<exists>t s. tasks f t = Some s \<and> sends_on c s)))"

definition channels_exist :: "('s, 'w) flight \<Rightarrow> bool" where
  "channels_exist f \<longleftrightarrow>
     (\<forall>t s c k. tasks f t = Some s \<longrightarrow> uses s = Some (c, k) \<longrightarrow> (\<exists>ch. chans f c = Some ch \<and> topic ch = k))"

definition replies_good :: "('s, 'w) flight \<Rightarrow> bool" where
  "replies_good f \<longleftrightarrow>
     (\<forall>c ch raw. chans f c = Some ch \<longrightarrow> sent ch = Some raw \<longrightarrow> (topic ch, raw) \<in> set (asked f)) \<and>
     (\<forall>t s. tasks f t = Some s \<longrightarrow> good_task (asked f) s)"

definition flight_inv :: "('s, 'w) flight \<Rightarrow> bool" where
  "flight_inv f \<longleftrightarrow>
     entries_led f \<and> one_sender f \<and> senders_alive f \<and> channels_exist f \<and> replies_good f"

lemmas flight_inv_defs = entries_led_def one_sender_def senders_alive_def channels_exist_def replies_good_def

lemma guards_sends: "guards s = Some (c, k) \<Longrightarrow> sends_on c s"
  by (cases s) (auto simp: sends_on_def)

lemma guards_uses: "guards s = Some x \<Longrightarrow> uses s = Some x"
  by (cases s) auto

lemma sends_uses: "sends_on c s \<Longrightarrow> \<exists>k. uses s = Some (c, k)"
  by (cases s) (auto simp: sends_on_def)

lemma sends_on_simps [simp]:
  "sends_on c (Leading c' ctx) \<longleftrightarrow> c' = c" "sends_on c (Published c' ctx raw) \<longleftrightarrow> c' = c"
  "sends_on c (Dropping c' ctx r) \<longleftrightarrow> c' = c" "\<not> sends_on c (Waiting c' ctx)" "\<not> sends_on c (Finished ctx r)"
  by (auto simp: sends_on_def)

lemma sends_on_same: "sends_on c s \<Longrightarrow> sends_on c' s \<Longrightarrow> c = c'"
  by (cases s) simp_all

lemma set_task_simps [simp]:
  "tasks (set_task t s f) = (tasks f)(t \<mapsto> s)" "chans (set_task t s f) = chans f"
  "inflight (set_task t s f) = inflight f" "asked (set_task t s f) = asked f" "sv (set_task t s f) = sv f"
  by (simp_all add: set_task_def)

lemma good_task_mono: "good_task known s \<Longrightarrow> set known \<subseteq> set known' \<Longrightarrow> good_task known' s"
  by (cases "(known, s)" rule: good_task.cases) (auto simp: good_reply_def)

lemma flight_inv_new: "flight_inv (flight_new st w)"
  by (simp add: flight_inv_def flight_inv_defs flight_new_def)

text \<open>The tasks after a change of one of them: that one, and the others.\<close>

lemma ex_updated: "(\<exists>t' s. (m(t \<mapsto> s')) t' = Some s \<and> P s) \<longleftrightarrow> P s' \<or> (\<exists>t' s. t' \<noteq> t \<and> m t' = Some s \<and> P s)"
  by (auto split: if_splits intro: exI [of _ t])

lemma ex_split: "(\<exists>t' s. m t' = Some s \<and> P s) \<longleftrightarrow> (\<exists>s. m t = Some s \<and> P s) \<or> (\<exists>t' s. t' \<noteq> t \<and> m t' = Some s \<and> P s)"
  by auto

lemma ex_same:
  assumes "P s' \<longleftrightarrow> (\<exists>s. m t = Some s \<and> P s)"
  shows "(\<exists>t' s. (m(t \<mapsto> s')) t' = Some s \<and> P s) \<longleftrightarrow> (\<exists>t' s. m t' = Some s \<and> P s)"
  unfolding ex_updated ex_split [of m P t] assms ..

lemma entry_led:
  "flight_inv f \<Longrightarrow> map_of (inflight f) k = Some c \<longleftrightarrow> (\<exists>t s. tasks f t = Some s \<and> guards s = Some (c, k))"
  by (simp only: flight_inv_def entries_led_def)

lemma sender_unique:
  "flight_inv f \<Longrightarrow> tasks f t = Some s \<Longrightarrow> tasks f t' = Some s' \<Longrightarrow> sends_on c s \<Longrightarrow> sends_on c s' \<Longrightarrow> t = t'"
  unfolding flight_inv_def one_sender_def by blast

lemma sender_alive:
  "flight_inv f \<Longrightarrow> chans f c = Some ch \<Longrightarrow> sender ch \<longleftrightarrow> (\<exists>t s. tasks f t = Some s \<and> sends_on c s)"
  unfolding flight_inv_def senders_alive_def by blast

lemma channel_exists:
  "flight_inv f \<Longrightarrow> tasks f t = Some s \<Longrightarrow> uses s = Some (c, k) \<Longrightarrow> \<exists>ch. chans f c = Some ch \<and> topic ch = k"
  unfolding flight_inv_def channels_exist_def by blast

text \<open>The same, with a task \<open>t\<close> singled out.\<close>

lemma entry_led_at:
  assumes "flight_inv f" and "(\<exists>s. tasks f t = Some s \<and> guards s = Some (c, k)) \<longleftrightarrow> b"
  shows "map_of (inflight f) k = Some c \<longleftrightarrow> b \<or> (\<exists>t' s. t' \<noteq> t \<and> tasks f t' = Some s \<and> guards s = Some (c, k))"
  unfolding entry_led [OF assms(1)] ex_split [of "tasks f" "\<lambda>s. guards s = Some (c, k)" t] assms(2) ..

lemma sender_alive_at:
  assumes "flight_inv f" and "chans f c = Some ch" and "(\<exists>s. tasks f t = Some s \<and> sends_on c s) \<longleftrightarrow> b"
  shows "sender ch \<longleftrightarrow> b \<or> (\<exists>t' s. t' \<noteq> t \<and> tasks f t' = Some s \<and> sends_on c s)"
  unfolding sender_alive [OF assms(1,2)] ex_split [of "tasks f" "sends_on c" t] assms(3) ..

lemma sent_known: "flight_inv f \<Longrightarrow> chans f c = Some ch \<Longrightarrow> sent ch = Some raw \<Longrightarrow> (topic ch, raw) \<in> set (asked f)"
  unfolding flight_inv_def replies_good_def by blast

lemma led_key:
  assumes inv: "flight_inv f" and t: "tasks f t = Some s" "guards s = Some (c, k)"
    and t': "tasks f t' = Some s'" "guards s' = Some (c', k)"
  shows "t = t'"
proof -
  have "map_of (inflight f) k = Some c" using t entry_led [OF inv] by blast
  moreover have "map_of (inflight f) k = Some c'" using t' entry_led [OF inv] by blast
  ultimately have "sends_on c s" "sends_on c s'" using t(2) t'(2) by (auto dest: guards_sends)
  then show ?thesis by (rule sender_unique [OF inv t(1) t'(1)])
qed

text \<open>A change of one task that keeps its ends of channels, and of the map with it.\<close>

lemma change_task_inv:
  assumes inv: "flight_inv f"
    and led: "\<And>k c. map_of fl k = Some c \<longleftrightarrow>
      guards s' = Some (c, k) \<or> (\<exists>t' s. t' \<noteq> t \<and> tasks f t' = Some s \<and> guards s = Some (c, k))"
    and one: "\<And>c t' s. sends_on c s' \<Longrightarrow> t' \<noteq> t \<Longrightarrow> tasks f t' = Some s \<Longrightarrow> \<not> sends_on c s"
    and alive: "\<And>c ch. chs c = Some ch \<Longrightarrow>
      sender ch \<longleftrightarrow> sends_on c s' \<or> (\<exists>t' s. t' \<noteq> t \<and> tasks f t' = Some s \<and> sends_on c s)"
    and exist: "\<And>c k. uses s' = Some (c, k) \<Longrightarrow> \<exists>ch. chs c = Some ch \<and> topic ch = k"
    and kept: "\<And>c ch. chans f c = Some ch \<Longrightarrow> \<exists>ch'. chs c = Some ch' \<and> topic ch' = topic ch"
    and good: "\<And>c ch raw. chs c = Some ch \<Longrightarrow> sent ch = Some raw \<Longrightarrow> (topic ch, raw) \<in> set known"
    and known: "set (asked f) \<subseteq> set known" and task: "good_task known s'"
    and f': "tasks f' = (tasks f)(t \<mapsto> s')" "inflight f' = fl" "chans f' = chs" "asked f' = known"
  shows "flight_inv f'"
  unfolding flight_inv_def
proof (intro conjI)
  show "entries_led f'" unfolding entries_led_def f' led ex_updated by blast
  show "one_sender f'"
    using inv one unfolding one_sender_def f' flight_inv_def by (auto split: if_splits)
  show "senders_alive f'" unfolding senders_alive_def f' ex_updated using alive by blast
  show "channels_exist f'"
    unfolding channels_exist_def f'
  proof (intro allI impI)
    fix t' s c k
    assume "((tasks f)(t \<mapsto> s')) t' = Some s" and "uses s = Some (c, k)"
    then show "\<exists>ch. chs c = Some ch \<and> topic ch = k"
      using exist channel_exists [OF inv] kept by (metis fun_upd_apply option.inject)
  qed
  show "replies_good f'"
    unfolding replies_good_def f'
  proof (intro conjI allI impI)
    fix t' s
    assume s: "((tasks f)(t \<mapsto> s')) t' = Some s"
    show "good_task known s"
    proof (cases "t' = t")
      case False
      with s inv have "good_task (asked f) s" unfolding flight_inv_def replies_good_def by simp
      then show ?thesis using known by (rule good_task_mono)
    qed (use s task in simp)
  qed (rule good)
qed

lemma drop_guard_inv:
  assumes inv: "flight_inv f" and t: "tasks f t = Some s" and g: "guards s = Some (c, key_of ctx)"
    and r: "good_task (asked f) (Dropping c ctx r)"
  shows "flight_inv (drop_guard t c ctx r f)"
proof (rule change_task_inv [OF inv, where s' = "Dropping c ctx r" and t = t])
  fix k c'
  show "map_of (dm_remove (key_of ctx) (inflight f)) k = Some c' \<longleftrightarrow>
    guards (Dropping c ctx r) = Some (c', k) \<or> (\<exists>t' s. t' \<noteq> t \<and> tasks f t' = Some s \<and> guards s = Some (c', k))"
  proof (cases "k = key_of ctx")
    case True
    then have "\<not> (\<exists>t' s. t' \<noteq> t \<and> tasks f t' = Some s \<and> guards s = Some (c', k))"
      using led_key [OF inv t g] by metis
    then show ?thesis using True by simp
  next
    case False
    then have "(\<exists>s. tasks f t = Some s \<and> guards s = Some (c', k)) \<longleftrightarrow> guards (Dropping c ctx r) = Some (c', k)"
      using t g by simp
    from entry_led_at [OF inv this] show ?thesis using False by simp
  qed
next
  fix c' t' s'
  assume "sends_on c' (Dropping c ctx r)" "t' \<noteq> t" "tasks f t' = Some s'"
  then show "\<not> sends_on c' s'" using sender_unique [OF inv t, of t' s' c] guards_sends [OF g] by auto
next
  fix c' ch
  assume ch: "chans f c' = Some ch"
  have "(\<exists>s. tasks f t = Some s \<and> sends_on c' s) \<longleftrightarrow> sends_on c' (Dropping c ctx r)"
    using t guards_sends [OF g] sends_on_same by auto
  then show "sender ch \<longleftrightarrow> sends_on c' (Dropping c ctx r) \<or> (\<exists>t' s. t' \<noteq> t \<and> tasks f t' = Some s \<and> sends_on c' s)"
    by (rule sender_alive_at [OF inv ch])
next
  fix c' k
  assume "uses (Dropping c ctx r) = Some (c', k)"
  then show "\<exists>ch. chans f c' = Some ch \<and> topic ch = k" using channel_exists [OF inv t guards_uses [OF g]] by simp
qed (use r sent_known [OF inv] in \<open>simp_all add: drop_guard_def\<close>)

lemma plain_task_inv:
  assumes inv: "flight_inv f" and t: "\<And>s. tasks f t = Some s \<Longrightarrow> guards s = None \<and> (\<forall>c. \<not> sends_on c s)"
    and s': "guards s' = None" "\<And>c. \<not> sends_on c s'"
    and u: "\<And>c k. uses s' = Some (c, k) \<Longrightarrow> \<exists>ch. chans f c = Some ch \<and> topic ch = k"
    and r: "good_task (asked f) s'"
  shows "flight_inv (set_task t s' f)"
proof (rule change_task_inv [OF inv, where s' = s' and t = t])
  fix k c
  have "(\<exists>s. tasks f t = Some s \<and> guards s = Some (c, k)) \<longleftrightarrow> guards s' = Some (c, k)"
    using t s'(1) by (metis option.distinct(1))
  then show "map_of (inflight f) k = Some c \<longleftrightarrow>
    guards s' = Some (c, k) \<or> (\<exists>t' s. t' \<noteq> t \<and> tasks f t' = Some s \<and> guards s = Some (c, k))"
    by (rule entry_led_at [OF inv])
next
  fix c ch
  assume ch: "chans f c = Some ch"
  have "(\<exists>s. tasks f t = Some s \<and> sends_on c s) \<longleftrightarrow> sends_on c s'" using t s'(2) by blast
  then show "sender ch \<longleftrightarrow> sends_on c s' \<or> (\<exists>t' s. t' \<noteq> t \<and> tasks f t' = Some s \<and> sends_on c s)"
    by (rule sender_alive_at [OF inv ch])
qed (use s'(2) r u sent_known [OF inv] in simp_all)

lemma flight_inv_sv [simp]: "flight_inv (f\<lparr>sv := x\<rparr>) = flight_inv f" "flight_inv (f\<lparr>sv := x, wd := y\<rparr>) = flight_inv f"
  by (simp_all add: flight_inv_def flight_inv_defs)

lemma new_leader_inv:
  assumes inv: "flight_inv f" and t: "tasks f t = None" and c: "chans f c = None"
    and k: "map_of (inflight f) (key_of ctx) = None"
  shows "flight_inv (set_task t (Leading c ctx)
     (f\<lparr>inflight := dm_insert (key_of ctx) c (inflight f),
        chans := (chans f)(c \<mapsto> \<lparr>sent = None, sender = True, topic = key_of ctx\<rparr>)\<rparr>))"
proof (rule change_task_inv [OF inv, where s' = "Leading c ctx" and t = t])
  have free: "\<not> sends_on c s" if "tasks f t' = Some s" for t' s
    using channel_exists [OF inv that] sends_uses [of c s] c by fastforce
  fix k' c'
  have e: "map_of (inflight f) k' = Some c' \<longleftrightarrow> False \<or> (\<exists>t' s. t' \<noteq> t \<and> tasks f t' = Some s \<and> guards s = Some (c', k'))"
    by (rule entry_led_at [OF inv]) (simp add: t)
  have "map_of (inflight f) (key_of ctx) \<noteq> Some c'" using k by simp
  then show "map_of (dm_insert (key_of ctx) c (inflight f)) k' = Some c' \<longleftrightarrow>
    guards (Leading c ctx) = Some (c', k') \<or> (\<exists>t' s. t' \<noteq> t \<and> tasks f t' = Some s \<and> guards s = Some (c', k'))"
    using e by (cases "k' = key_of ctx") auto
  show "\<not> sends_on c' s" if "sends_on c' (Leading c ctx)" "t' \<noteq> t" "tasks f t' = Some s" for t' s
    using that free by simp
  show "sender ch \<longleftrightarrow> sends_on c' (Leading c ctx) \<or> (\<exists>t' s. t' \<noteq> t \<and> tasks f t' = Some s \<and> sends_on c' s)"
    if "((chans f)(c \<mapsto> \<lparr>sent = None, sender = True, topic = key_of ctx\<rparr>)) c' = Some ch" for ch
    using that sender_alive_at [OF inv, of c' ch t False] t by (cases "c' = c") auto
qed (use sent_known [OF inv] c in \<open>auto split: if_splits\<close>)

lemma enter_inv:
  assumes inv: "flight_inv f" and t: "tasks f t = None" and c: "chans f c = None"
  shows "flight_inv (enter e t c ctx f)"
proof (cases "map_of (inflight f) (key_of ctx)")
  case None
  then show ?thesis using new_leader_inv [OF inv t c] by (simp add: enter_def)
next
  case (Some c')
  then obtain t' s where s: "tasks f t' = Some s" "guards s = Some (c', key_of ctx)"
    using entry_led [OF inv] by blast
  have ch: "\<exists>ch. chans f c' = Some ch \<and> topic ch = key_of ctx"
    by (rule channel_exists [OF inv s(1) guards_uses [OF s(2)]])
  have "flight_inv (set_task t (Waiting c' ctx) (f\<lparr>sv := tally inc_coalesced e (sv f)\<rparr>))"
    by (rule plain_task_inv) (use inv t ch in simp_all)
  then show ?thesis by (simp add: enter_def Some)
qed

lemma publish_inv:
  assumes inv: "flight_inv f" and t: "tasks f t = Some (Leading c ctx)"
  shows "flight_inv (set_task t (Published c ctx raw)
            (f\<lparr>sv := st, wd := w, chans := (chans f)(c \<mapsto> \<lparr>sent = Some raw, sender = True, topic = key_of ctx\<rparr>),
               asked := asked f @ [(key_of ctx, raw)]\<rparr>))"
proof (rule change_task_inv [OF inv, where s' = "Published c ctx raw" and t = t])
  fix k c'
  show "map_of (inflight f) k = Some c' \<longleftrightarrow>
    guards (Published c ctx raw) = Some (c', k) \<or> (\<exists>t' s. t' \<noteq> t \<and> tasks f t' = Some s \<and> guards s = Some (c', k))"
    by (rule entry_led_at [OF inv]) (simp add: t)
  show "\<not> sends_on c' s" if "sends_on c' (Published c ctx raw)" "t' \<noteq> t" "tasks f t' = Some s" for t' s
    using that sender_unique [OF inv t, of t' s c] by auto
  show "sender ch \<longleftrightarrow> sends_on c' (Published c ctx raw) \<or> (\<exists>t' s. t' \<noteq> t \<and> tasks f t' = Some s \<and> sends_on c' s)"
    if "((chans f)(c \<mapsto> \<lparr>sent = Some raw, sender = True, topic = key_of ctx\<rparr>)) c' = Some ch" for ch
  proof (cases "c' = c")
    case False
    with that have "chans f c' = Some ch" by simp
    then show ?thesis by (rule sender_alive_at [OF inv]) (simp add: t False)
  qed (use that in auto)
  have top: "\<exists>ch. chans f c = Some ch \<and> topic ch = key_of ctx" by (rule channel_exists [OF inv t]) simp
  show "\<exists>ch'. ((chans f)(c \<mapsto> \<lparr>sent = Some raw, sender = True, topic = key_of ctx\<rparr>)) c' = Some ch' \<and> topic ch' = topic ch"
    if "chans f c' = Some ch" for ch
    using that top by (cases "c' = c") auto
  show "(topic ch, raw') \<in> set (asked f @ [(key_of ctx, raw)])"
    if "((chans f)(c \<mapsto> \<lparr>sent = Some raw, sender = True, topic = key_of ctx\<rparr>)) c' = Some ch" "sent ch = Some raw'" for ch raw'
    using that sent_known [OF inv, of c' ch raw'] by (cases "c' = c") auto
qed auto

lemma lead_inv:
  assumes inv: "flight_inv f" and t: "tasks f t = Some (Leading c ctx)"
  shows "flight_inv (lead e net t c ctx f)"
proof -
  obtain r st w where r: "forward_and_cache e net ctx (sv f) (wd f) = (r, st, w)" by (metis prod_cases3)
  have d: "flight_inv (drop_guard t c ctx None (f\<lparr>sv := st, wd := w\<rparr>))"
    by (rule drop_guard_inv [where s = "Leading c ctx"]) (use inv t in simp_all)
  show ?thesis
    unfolding lead_def r prod.case by (cases r) (simp_all add: d publish_inv [OF inv t])
qed

lemma return_reply_inv:
  assumes inv: "flight_inv f" and t: "tasks f t = Some (Published c ctx raw)"
  shows "flight_inv (return_reply t c ctx raw f)"
proof -
  have "(key_of ctx, raw) \<in> set (asked f)"
    using inv t unfolding flight_inv_def replies_good_def by (metis good_task.simps(1))
  then show ?thesis
    unfolding return_reply_def
    by (intro drop_guard_inv [OF inv t]) (auto simp: good_reply_def)
qed

lemma drop_sender_inv:
  assumes inv: "flight_inv f" and t: "tasks f t = Some (Dropping c ctx r)"
  shows "flight_inv (drop_sender t c ctx r f)"
proof (rule change_task_inv [OF inv, where s' = "Finished ctx r" and t = t])
  let ?chs = "(chans f)(c := map_option (\<lambda>ch. ch\<lparr>sender := False\<rparr>) (chans f c))"
  fix k c'
  show "map_of (inflight f) k = Some c' \<longleftrightarrow>
    guards (Finished ctx r) = Some (c', k) \<or> (\<exists>t' s. t' \<noteq> t \<and> tasks f t' = Some s \<and> guards s = Some (c', k))"
    by (rule entry_led_at [OF inv]) (simp add: t)
  show "sender ch \<longleftrightarrow> sends_on c' (Finished ctx r) \<or> (\<exists>t' s. t' \<noteq> t \<and> tasks f t' = Some s \<and> sends_on c' s)"
    if "?chs c' = Some ch" for ch
  proof (cases "c' = c")
    case True
    have "\<not> (\<exists>t' s. t' \<noteq> t \<and> tasks f t' = Some s \<and> sends_on c s)"
      using sender_unique [OF inv t] by (metis sends_on_simps(3))
    then show ?thesis using that True by auto
  next
    case False
    with that have "chans f c' = Some ch" by simp
    then show ?thesis by (rule sender_alive_at [OF inv]) (use t False in auto)
  qed
  show "\<exists>ch'. ?chs c' = Some ch' \<and> topic ch' = topic ch" if "chans f c' = Some ch" for ch
    using that by (cases "c' = c") auto
  show "(topic ch, raw') \<in> set (asked f)" if "?chs c' = Some ch" "sent ch = Some raw'" for ch raw'
    using that sent_known [OF inv, of c'] by (cases "c' = c") auto
  have "good_task (asked f) (Dropping c ctx r)" using inv t unfolding flight_inv_def replies_good_def by blast
  then show "good_task (asked f) (Finished ctx r)" by (cases r) simp_all
qed (simp_all add: drop_sender_def fun_upd_def)

lemma finish_inv:
  assumes "flight_inv f" and "tasks f t = Some (Waiting c ctx)" and "good_task (asked f) (Finished ctx r)"
  shows "flight_inv (set_task t (Finished ctx r) f)"
  by (rule plain_task_inv) (use assms in simp_all)

lemma poll_inv:
  assumes inv: "flight_inv f" and t: "tasks f t = Some (Waiting c ctx)"
  shows "flight_inv (poll t c ctx f)"
proof -
  obtain ch where ch: "chans f c = Some ch" "topic ch = key_of ctx" using channel_exists [OF inv t] by auto
  have "good_task (asked f) (Finished ctx (Some (follower_reply (Some raw) ctx)))" if "sent ch = Some raw" for raw
    using sent_known [OF inv ch(1) that] ch(2) by (auto simp: good_reply_def follower_reply_def)
  moreover have "good_task (asked f) (Finished ctx (Some (follower_reply None ctx)))"
    by (simp add: good_reply_def follower_reply_def)
  ultimately show ?thesis
    using inv finish_inv [OF inv t] by (simp add: poll_def ch split: option.split)
qed

lemma flight_step_inv: "flight_step net f f' \<Longrightarrow> flight_inv f \<Longrightarrow> flight_inv f'"
proof (induction rule: flight_step.induct)
  case (cancel f t c ctx)
  then show ?case by (intro drop_guard_inv [where s = "Leading c ctx"]) simp_all
next
  case (abandon f t c ctx)
  then show ?case by (intro finish_inv) simp_all
qed (simp_all add: enter_inv lead_inv return_reply_inv drop_sender_inv poll_inv)

interpretation fl: step_invariant "flight_step net" flight_inv for net
  by unfold_locales (rule flight_step_inv)

lemma reachable_inv: "(flight_step net)\<^sup>*\<^sup>* (flight_new st w) f \<Longrightarrow> flight_inv f"
  by (erule fl.steps_good) (rule flight_inv_new)


section \<open>Properties\<close>

text \<open>Two tasks for one name, the second following the first.\<close>

definition flight_ctx :: forward_ctx where
  "flight_ctx = \<lparr>ctx_request = \<lparr>header = \<lparr>h_id = 7, h_flags = 0x0100, h_questions = 0, h_answers = 0,
       h_authorities = 0, h_additionals = 0\<rparr>, questions = [], answers = [], authorities = [], additionals = []\<rparr>,
     ctx_raw = [], ctx_name = ''a'', ctx_qtype = 1, ctx_upstream = SocketV4 8 53, ctx_transport = Tcp\<rparr>"

definition flight_env :: env where
  "flight_env = \<lparr>shard = 0, limiter_clock = 0, cache_clock = 0, insert_clock = 0, insert_clock' = 0,
     unix_clock = \<lambda>_. 0, rrset_order = \<lambda>x. x, first_key = \<lambda>_. None, ed25519 = \<lambda>_. None\<rparr>"

definition flight_one :: "(unit, unit) flight" where
  "flight_one = enter flight_env 0 0 flight_ctx (flight_new (authoritative_server zone_set_empty) ())"

definition flight_two :: "(unit, unit) flight" where
  "flight_two = enter flight_env 1 1 flight_ctx flight_one"

definition flight_left :: "(unit, unit) flight" where
  "flight_left = poll 1 0 flight_ctx (drop_sender 0 0 flight_ctx None (drop_guard 0 0 flight_ctx None flight_two))"

lemma flight_tasks:
  "tasks flight_one = [0 \<mapsto> Leading 0 flight_ctx]"
  "tasks flight_two = [0 \<mapsto> Leading 0 flight_ctx, 1 \<mapsto> Waiting 0 flight_ctx]"
  "tasks flight_left 1 = Some (Finished flight_ctx (Some (follower_reply None flight_ctx)))"
  "chans flight_one 1 = None" "map_of (inflight flight_two) (key_of flight_ctx) = Some 0"
  by (simp_all add: flight_left_def flight_two_def flight_one_def flight_new_def enter_def drop_guard_def
      drop_sender_def poll_def)

lemma flight_two_reached: "(flight_step net)\<^sup>*\<^sup>* (flight_new (authoritative_server zone_set_empty) ()) flight_two"
proof -
  have "flight_step net (flight_new (authoritative_server zone_set_empty) ()) flight_one"
    unfolding flight_one_def by (rule flight_step.arrive) (simp_all add: flight_new_def)
  moreover have "flight_step net flight_one flight_two"
    unfolding flight_two_def by (rule flight_step.arrive) (simp_all add: flight_tasks flight_tasks(4) [simplified])
  ultimately show ?thesis by (meson converse_rtranclp_into_rtranclp r_into_rtranclp)
qed

lemma flight_left_reached: "(flight_step net)\<^sup>*\<^sup>* (flight_new (authoritative_server zone_set_empty) ()) flight_left"
proof -
  let ?f1 = "drop_guard 0 0 flight_ctx None flight_two"
  let ?f2 = "drop_sender 0 0 flight_ctx None ?f1"
  have "flight_step net flight_two ?f1" by (rule flight_step.cancel) (simp add: flight_tasks)
  moreover have "flight_step net ?f1 ?f2" by (rule flight_step.leave) (simp add: drop_guard_def)
  moreover have "flight_step net ?f2 flight_left"
    unfolding flight_left_def by (rule flight_step.turn) (simp add: drop_guard_def drop_sender_def flight_tasks)
  ultimately show ?thesis using flight_two_reached [of net] by (meson rtranclp.rtrancl_into_rtrancl)
qed

text \<open>
  C4: single flight.  However tasks interleave and are cancelled, at any moment at most one of them
  is asking upstream for a given name and type, and the map of queries in flight has an entry
  for exactly those names and types somebody is asking for.
\<close>

theorem single_flight:
  assumes "(flight_step net)\<^sup>*\<^sup>* (flight_new st w) f"
  shows "(tasks f t = Some (Leading c ctx) \<and> tasks f t' = Some (Leading c' ctx') \<and> key_of ctx = key_of ctx' \<longrightarrow> t = t') \<and>
    (map_of (inflight f) k \<noteq> None \<longleftrightarrow> (\<exists>t s c. tasks f t = Some s \<and> guards s = Some (c, k)))"
proof -
  have inv: "flight_inv f" by (rule reachable_inv [OF assms])
  have "t = t'" if "tasks f t = Some (Leading c ctx)" "tasks f t' = Some (Leading c' ctx')" "key_of ctx = key_of ctx'"
    using led_key [OF inv that(1) _ that(2)] that(3) by simp
  moreover have "map_of (inflight f) k \<noteq> None \<longleftrightarrow> (\<exists>t s c. tasks f t = Some s \<and> guards s = Some (c, k))"
    using entry_led [OF inv, of k] by (metis not_Some_eq)
  ultimately show ?thesis by blast
qed

theorem single_flight_witness:
  "\<exists>t s c. tasks flight_two t = Some s \<and> guards s = Some (c, (''a'', 1))"
  using single_flight [OF flight_two_reached, of 0 0 flight_ctx 0 0 flight_ctx "(''a'', 1)"] flight_tasks(5)
  by (simp add: key_of_def flight_ctx_def)

text \<open>
  C13: what a coalesced task replies.  The reply of a task is made from bytes that an upstream query
  for its own name and type returned, or from a SERVFAIL response to its own request.
\<close>

theorem shared_reply:
  assumes "(flight_step net)\<^sup>*\<^sup>* (flight_new st w) f" and "tasks f t = Some (Finished ctx (Some r))"
  shows "(\<exists>raw. (key_of ctx, raw) \<in> set (asked f) \<and> r = replay raw (ctx_request ctx) (ctx_transport ctx)) \<or>
    r = replay (to_bytes (synth_response (ctx_request ctx) [] RCODE_SERVFAIL)) (ctx_request ctx) (ctx_transport ctx)"
proof -
  have "good_task (asked f) (Finished ctx (Some r))"
    using reachable_inv [OF assms(1)] assms(2) unfolding flight_inv_def replies_good_def by blast
  then show ?thesis by (simp add: good_reply_def)
qed

theorem shared_reply_witness:
  "(\<exists>raw. (key_of flight_ctx, raw) \<in> set (asked flight_left) \<and>
      follower_reply None flight_ctx = replay raw (ctx_request flight_ctx) (ctx_transport flight_ctx)) \<or>
    follower_reply None flight_ctx
      = replay (to_bytes (synth_response (ctx_request flight_ctx) [] RCODE_SERVFAIL)) (ctx_request flight_ctx) (ctx_transport flight_ctx)"
  by (rule shared_reply [OF flight_left_reached flight_tasks(3)])

text \<open>A follower finishes at its next turn once its leader has left, and its leader can always leave.\<close>

lemma poll_finishes:
  assumes "chans f c = Some ch" and "sent ch \<noteq> None \<or> \<not> sender ch"
  shows "\<exists>r. tasks (poll t c ctx f) t = Some (Finished ctx (Some r))"
  using assms by (auto simp: poll_def split: option.split)

lemma leader_leaves:
  assumes t: "tasks f t = Some (Waiting c ctx)" and t': "tasks f t' = Some (Dropping c ctx' r)" and ch: "chans f c = Some ch"
  shows "\<exists>f' r. (flight_step net)\<^sup>*\<^sup>* f f' \<and> tasks f' t = Some (Finished ctx (Some r))"
proof -
  let ?f = "drop_sender t' c ctx' r f"
  have "t \<noteq> t'" using t t' by auto
  then have w: "tasks ?f t = Some (Waiting c ctx)" using t by (simp add: drop_sender_def)
  have "chans ?f c = Some (ch\<lparr>sender := False\<rparr>)" using ch by (simp add: drop_sender_def)
  then obtain r' where "tasks (poll t c ctx ?f) t = Some (Finished ctx (Some r'))"
    using poll_finishes by fastforce
  moreover have "(flight_step net)\<^sup>*\<^sup>* f (poll t c ctx ?f)"
    using flight_step.leave [OF t', of net] flight_step.turn [OF w, of net]
    by (meson converse_rtranclp_into_rtranclp rtranclp.rtrancl_refl)
  ultimately show ?thesis by blast
qed

text \<open>
  C14: no follower waits for ever.  In any reachable state a waiting task either finishes at its next
  turn, or the task that leads its query is still there, and then the steps that are left lead
  to the follower's reply.
\<close>

theorem follower_answered:
  assumes "(flight_step net)\<^sup>*\<^sup>* (flight_new st w) f" and t: "tasks f t = Some (Waiting c ctx)"
  shows "((\<exists>r. tasks (poll t c ctx f) t = Some (Finished ctx (Some r))) \<or>
      (\<exists>t' s. tasks f t' = Some s \<and> sends s = Some (c, key_of ctx))) \<and>
    (\<exists>f' r. (flight_step net)\<^sup>*\<^sup>* f f' \<and> tasks f' t = Some (Finished ctx (Some r)))"
proof -
  have inv: "flight_inv f" by (rule reachable_inv [OF assms(1)])
  obtain ch where ch: "chans f c = Some ch" "topic ch = key_of ctx" using channel_exists [OF inv t] by auto
  show ?thesis
  proof (cases "sent ch \<noteq> None \<or> \<not> sender ch")
    case True
    from poll_finishes [OF ch(1) True] flight_step.turn [OF t, of net] show ?thesis
      by (meson r_into_rtranclp)
  next
    case False
    then obtain t' s where s: "tasks f t' = Some s" "sends_on c s" using sender_alive [OF inv ch(1)] by blast
    obtain k where k: "sends s = Some (c, k)" using s(2) by (auto simp: sends_on_def)
    have "uses s = Some (c, k)" using k by (cases s) auto
    then have "k = key_of ctx" using channel_exists [OF inv s(1)] ch by auto
    have ne: "t \<noteq> t'" using t s by auto
    have "\<exists>f' r. (flight_step net)\<^sup>*\<^sup>* f f' \<and> tasks f' t = Some (Finished ctx (Some r))"
    proof -
      have guard: "\<exists>f' r. (flight_step net)\<^sup>*\<^sup>* f f' \<and> tasks f' t = Some (Finished ctx (Some r))"
        if "flight_step net f (drop_guard t' c ctx' x f)" for ctx' x
      proof -
        have "tasks (drop_guard t' c ctx' x f) t = Some (Waiting c ctx)"
          "tasks (drop_guard t' c ctx' x f) t' = Some (Dropping c ctx' x)" "chans (drop_guard t' c ctx' x f) c = Some ch"
          using ne t ch by (simp_all add: drop_guard_def)
        from leader_leaves [OF this] that show ?thesis by (meson converse_rtranclp_into_rtranclp)
      qed
      show ?thesis
      proof (cases s)
        case (Leading c' ctx')
        then show ?thesis using guard flight_step.cancel s by (metis sends_on_simps(1))
      next
        case (Published c' ctx' raw)
        then show ?thesis using guard flight_step.reply s by (metis return_reply_def sends_on_simps(2))
      next
        case (Dropping c' ctx' x)
        then show ?thesis using leader_leaves [OF t] s ch(1) by (metis sends_on_simps(3))
      qed (use s in simp_all)
    qed
    then show ?thesis using s(1) k \<open>k = key_of ctx\<close> by blast
  qed
qed

theorem follower_answered_witness:
  "\<exists>f' r. (flight_step dead_net)\<^sup>*\<^sup>* flight_two f' \<and> tasks f' 1 = Some (Finished flight_ctx (Some r))"
  by (rule follower_answered [OF flight_two_reached, THEN conjunct2]) (simp add: flight_tasks)

end
