(* ===== verification/Server.thy ===== *)
theory Server
  imports Server_Inv
begin

text \<open>
  The transports: the UDP worker, the stream handler of TCP and TLS, the listeners and the metrics
  endpoint of \<^verbatim>\<open>src/server.rs\<close>, DNS over HTTPS of \<^verbatim>\<open>src/doh.rs\<close> and DNS over QUIC of
  \<^verbatim>\<open>src/doq.rs\<close>.  What arrives on a socket is a list; the surroundings of the \<open>i\<close>-th request are
  \<open>envs i\<close>.  Base64, HTTP and QUIC are libraries: a decoder is a parameter, and requests and streams
  are given by their contents.
\<close>

section \<open>UDP\<close>

text \<open>What the \<^verbatim>\<open>select!\<close> of the receive loop can yield.\<close>

datatype udp_event = Datagram bytes ip_addr u16 | Receive_error | Shutdown

datatype udp_action = Send bytes ip_addr u16 | Spawn forward_ctx ip_addr u16

datatype worker_end = Running | Stopped | Failed | Panicked

definition UDP_BUFFER :: nat where "UDP_BUFFER = 1232"

fun serve ::
    "(nat \<Rightarrow> env) \<Rightarrow> nat \<Rightarrow> udp_event list \<Rightarrow> 's server_state \<Rightarrow> udp_action list \<times> worker_end \<times> 's server_state" where
  "serve envs i [] st = ([], Running, st)"
| "serve envs i (Receive_error # evs) st = ([], Failed, st)"
| "serve envs i (Shutdown # evs) st = ([], Stopped, st)"
| "serve envs i (Datagram d ip port # evs) st =
     (case resolve_local (envs i) (take UDP_BUFFER d) ip Udp st of
        (Ok (Ready resp), st1) \<Rightarrow>
          (let (acts, fin, st2) = serve envs (i + 1) evs st1 in (Send resp ip port # acts, fin, st2))
      | (Ok Drop, st1) \<Rightarrow> serve envs (i + 1) evs st1
      | (Ok (Forward ctx), st1) \<Rightarrow>
          (let (acts, fin, st2) = serve envs (i + 1) evs st1 in (Spawn ctx ip port # acts, fin, st2))
      | (_, st1) \<Rightarrow> ([], Panicked, st1))"


section \<open>Streams\<close>

text \<open>
  \<^verbatim>\<open>handle_dns_stream\<close> on a client that sends \<open>stream\<close> and closes; \<open>writable i\<close> says whether the
  \<open>i\<close>-th reply can be written.  The bytes written, how the handler ended, and the state.
\<close>

datatype stream_end = Closed | Broken | Crashed

function handle_dns_stream ::
    "(nat \<Rightarrow> env) \<Rightarrow> ('s, 'w) net \<Rightarrow> (nat \<Rightarrow> bool) \<Rightarrow> ip_addr \<Rightarrow> nat \<Rightarrow> bytes \<Rightarrow> 's server_state \<Rightarrow> 'w \<Rightarrow>
       bytes \<times> stream_end \<times> 's server_state \<times> 'w" where
  "handle_dns_stream envs net writable ip i stream st w =
     (case read_exact 2 stream of
        None \<Rightarrow> ([], Closed, st, w)
      | Some (len_buf, rest) \<Rightarrow>
          (case read_exact (unat (be_word len_buf :: u16)) rest of
             None \<Rightarrow> ([], Broken, st, w)
           | Some (msg, rest') \<Rightarrow>
               (case state_resolve (envs i) net msg ip Tcp st w of
                  (Ok (Some resp), st1, w1) \<Rightarrow>
                    if writable i then
                      (let (out, fin, st2, w2) = handle_dns_stream envs net writable ip (i + 1) rest' st1 w1
                       in (frame resp @ out, fin, st2, w2))
                    else ([], Broken, st1, w1)
                | (Ok None, st1, w1) \<Rightarrow> handle_dns_stream envs net writable ip (i + 1) rest' st1 w1
                | (_, st1, w1) \<Rightarrow> ([], Crashed, st1, w1))))"
  by pat_completeness auto
termination
  by (relation "measure (\<lambda>(_, _, _, _, _, stream, _, _). length stream)")
     (auto simp: read_exact_def split: if_splits)

declare handle_dns_stream.simps [simp del]

text \<open>
  \<^verbatim>\<open>handle_connection\<close> of \<^verbatim>\<open>src/doq.rs\<close>: the streams the client opens, each with all it sends on it;
  the bytes written to each stream.  A stream that ends within its length prefix ends the connection.
\<close>

fun handle_connection ::
    "(nat \<Rightarrow> env) \<Rightarrow> ('s, 'w) net \<Rightarrow> (nat \<Rightarrow> bool) \<Rightarrow> ip_addr \<Rightarrow> nat \<Rightarrow> bytes list \<Rightarrow> 's server_state \<Rightarrow> 'w \<Rightarrow>
       bytes list \<times> stream_end \<times> 's server_state \<times> 'w" where
  "handle_connection envs net writable ip i [] st w = ([], Closed, st, w)"
| "handle_connection envs net writable ip i (stream # streams) st w =
     (case read_exact 2 stream of
        None \<Rightarrow> ([], Closed, st, w)
      | Some (len_buf, rest) \<Rightarrow>
          (case read_exact (unat (be_word len_buf :: u16)) rest of
             None \<Rightarrow> ([], Broken, st, w)
           | Some (msg, _) \<Rightarrow>
               (case state_resolve (envs i) net msg ip Tcp st w of
                  (Ok (Some resp), st1, w1) \<Rightarrow>
                    if writable i then
                      (let (outs, fin, st2, w2) = handle_connection envs net writable ip (i + 1) streams st1 w1
                       in (frame resp # outs, fin, st2, w2))
                    else ([], Broken, st1, w1)
                | (Ok None, st1, w1) \<Rightarrow>
                    (let (outs, fin, st2, w2) = handle_connection envs net writable ip (i + 1) streams st1 w1
                     in ([] # outs, fin, st2, w2))
                | (_, st1, w1) \<Rightarrow> ([], Crashed, st1, w1))))"

definition DOQ_ALPN :: bytes where "DOQ_ALPN = str_bytes ''doq''"

definition with_doq_alpn :: "'cfg \<times> bytes list \<Rightarrow> 'cfg \<times> bytes list" where
  "with_doq_alpn cfg = (fst cfg, [DOQ_ALPN])"


section \<open>DNS over HTTPS\<close>

definition MAX_BODY :: nat where "MAX_BODY = 64 * 1024"

record doh_response =
  doh_status :: nat
  doh_body :: bytes

definition doh_error :: "nat \<Rightarrow> doh_response" where
  "doh_error status = \<lparr>doh_status = status, doh_body = []\<rparr>"

definition strip_prefix :: "string \<Rightarrow> string \<Rightarrow> string option" where
  "strip_prefix p s = (if take (length p) s = p then Some (drop (length p) s) else None)"

text \<open>\<open>decode\<close> is the URL-safe Base64 decoder without padding.\<close>

definition extract_dns_param :: "(string \<Rightarrow> bytes option) \<Rightarrow> string \<Rightarrow> bytes option" where
  "extract_dns_param decode query =
     (case find_map (strip_prefix ''dns='') (split_on CHR ''&'' query) of
        None \<Rightarrow> None
      | Some v \<Rightarrow> decode v)"

text \<open>The query of a request, or the status that refuses it.\<close>

definition http_query :: "(string \<Rightarrow> bytes option) \<Rightarrow> string \<Rightarrow> string \<Rightarrow> bytes \<Rightarrow> nat + bytes" where
  "http_query decode meth target body =
     (let (p, query) = (case split_once CHR ''?'' target of Some (a, q) \<Rightarrow> (a, Some q) | None \<Rightarrow> (target, None))
      in if p \<noteq> ''/dns-query'' then Inl 404
         else case (if meth = ''POST'' then Inr body
                    else if meth = ''GET'' then
                      (case Option.bind query (extract_dns_param decode) of Some d \<Rightarrow> Inr d | None \<Rightarrow> Inl 400)
                    else Inl 405) of
                Inl status \<Rightarrow> Inl status
              | Inr q \<Rightarrow> if q = [] \<or> MAX_BODY < length q then Inl 400 else Inr q)"

definition resolve_http ::
    "env \<Rightarrow> ('s, 'w) net \<Rightarrow> (string \<Rightarrow> bytes option) \<Rightarrow> string \<Rightarrow> string \<Rightarrow> bytes \<Rightarrow> ip_addr \<Rightarrow> 's server_state \<Rightarrow> 'w \<Rightarrow>
       doh_response io_result \<times> 's server_state \<times> 'w" where
  "resolve_http e net decode meth target body ip st w =
     (case http_query decode meth target body of
        Inl status \<Rightarrow> (Ok (doh_error status), st, w)
      | Inr q \<Rightarrow>
          (let (res, st1, w1) = state_resolve e net q ip Tcp st w
           in (obind res (\<lambda>answer. Ok (case answer of
                 Some dns_response \<Rightarrow> \<lparr>doh_status = 200, doh_body = dns_response\<rparr>
               | None \<Rightarrow> doh_error 400)), st1, w1)))"

text \<open>\<^verbatim>\<open>handle_http\<close>: a body over the limit is refused before it is looked at.\<close>

definition handle_http ::
    "env \<Rightarrow> ('s, 'w) net \<Rightarrow> (string \<Rightarrow> bytes option) \<Rightarrow> string \<Rightarrow> string \<Rightarrow> bytes \<Rightarrow> ip_addr \<Rightarrow> 's server_state \<Rightarrow> 'w \<Rightarrow>
       doh_response io_result \<times> 's server_state \<times> 'w" where
  "handle_http e net decode meth target body ip st w =
     (if MAX_BODY < length body then (Ok (doh_error 413), st, w)
      else resolve_http e net decode meth target body ip st w)"


section \<open>The metrics endpoint\<close>

definition metrics_http :: "bool \<Rightarrow> string \<Rightarrow> 's server_state \<Rightarrow> nat \<times> string \<times> string" where
  "metrics_http shutting_down p st =
     (if p = ''/metrics'' then (200, prometheus (s_metrics st), ''text/plain; version=0.0.4'')
      else if p = ''/healthz'' then
        (if shutting_down then (503, ''shutting down'' @ [CHR 0x0A], ''text/plain'')
         else (200, ''ok'' @ [CHR 0x0A], ''text/plain''))
      else (404, [], ''text/plain''))"


section \<open>The listeners\<close>

datatype listener =
    Udp_worker string | Tcp_listener string | Dot_listener string | Doh_listener string
  | Doq_endpoint string | Metrics_listener string

definition bind_listener :: "(listener \<Rightarrow> bool) \<Rightarrow> listener \<Rightarrow> listener list io_result" where
  "bind_listener binds l = (if binds l then Ok [l] else Err ''failed to bind'')"

definition optional :: "('a \<Rightarrow> 'b list io_result) \<Rightarrow> 'a option \<Rightarrow> 'b list io_result" where
  "optional f x = (case x of None \<Rightarrow> Ok [] | Some a \<Rightarrow> f a)"

text \<open>
  The start of \<^verbatim>\<open>run\<close>: one UDP socket per worker, the TCP listener, the encrypted transports and the
  metrics endpoint, in this order; a QUIC endpoint that cannot be bound is only logged.
\<close>

fun bind_workers :: "(listener \<Rightarrow> bool) \<Rightarrow> string \<Rightarrow> nat \<Rightarrow> listener list io_result" where
  "bind_workers binds addr 0 = Ok []"
| "bind_workers binds addr (Suc k) =
     obind (bind_listener binds (Udp_worker addr)) (\<lambda>l. obind (bind_workers binds addr k) (\<lambda>ls. Ok (l @ ls)))"

definition start_tls :: "(listener \<Rightarrow> bool) \<Rightarrow> 'cfg tls_options \<Rightarrow> listener list io_result" where
  "start_tls binds tls =
     obind (optional (\<lambda>a. bind_listener binds (Dot_listener a)) (to_dot_addr tls)) (\<lambda>dot.
     obind (optional (\<lambda>a. bind_listener binds (Doh_listener a)) (to_doh_addr tls)) (\<lambda>doh.
       Ok (dot @ doh @ (case to_doq_addr tls of
             Some a \<Rightarrow> if parse_socket_addr a \<noteq> None \<and> binds (Doq_endpoint a) then [Doq_endpoint a] else []
           | None \<Rightarrow> []))))"

definition start_listeners ::
    "(listener \<Rightarrow> bool) \<Rightarrow> nat \<Rightarrow> string \<Rightarrow> 'cfg tls_options option \<Rightarrow> string option \<Rightarrow> listener list io_result" where
  "start_listeners binds workers addr tls metrics_addr =
     obind (bind_workers binds addr workers) (\<lambda>udp.
     obind (bind_listener binds (Tcp_listener addr)) (\<lambda>tcp.
     obind (optional (start_tls binds) tls) (\<lambda>enc.
     obind (optional (\<lambda>a. bind_listener binds (Metrics_listener a)) metrics_addr) (\<lambda>m.
       Ok (udp @ tcp @ enc @ m)))))"


section \<open>The accept loops\<close>

text \<open>
  What the \<^verbatim>\<open>select!\<close> of an accept loop can yield, and the task it spawns for a connection: a
  connection is given by all that the client sends on it, an HTTPS request by its method, target and
  body.  The TLS and QUIC handshakes are parameters.
\<close>

datatype 'c accept_event = Incoming 'c ip_addr | Accept_error | Accept_shutdown

datatype conn_task =
    Dns_stream bytes ip_addr
  | Dns_streams "bytes list" ip_addr
  | Http_requests "(string \<times> string \<times> bytes) list" ip_addr
  | Metrics_requests "string list"
  | Handshake_failed

fun accept_loop :: "('c \<Rightarrow> ip_addr \<Rightarrow> conn_task) \<Rightarrow> 'c accept_event list \<Rightarrow> conn_task list \<times> worker_end" where
  "accept_loop spawn [] = ([], Running)"
| "accept_loop spawn (Incoming c peer # evs) = (let (ts, fin) = accept_loop spawn evs in (spawn c peer # ts, fin))"
| "accept_loop spawn (Accept_error # evs) = ([], Failed)"
| "accept_loop spawn (Accept_shutdown # evs) = ([], Stopped)"

definition serve_tcp :: "bytes accept_event list \<Rightarrow> conn_task list \<times> worker_end" where
  "serve_tcp = accept_loop Dns_stream"

definition serve_dot :: "('c \<Rightarrow> bytes option) \<Rightarrow> 'c accept_event list \<Rightarrow> conn_task list \<times> worker_end" where
  "serve_dot acceptor =
     accept_loop (\<lambda>c peer. case acceptor c of Some tls \<Rightarrow> Dns_stream tls peer | None \<Rightarrow> Handshake_failed)"

definition serve_doh ::
    "('c \<Rightarrow> (string \<times> string \<times> bytes) list option) \<Rightarrow> 'c accept_event list \<Rightarrow> conn_task list \<times> worker_end" where
  "serve_doh acceptor =
     accept_loop (\<lambda>c peer. case acceptor c of Some reqs \<Rightarrow> Http_requests reqs peer | None \<Rightarrow> Handshake_failed)"

definition serve_metrics :: "string list accept_event list \<Rightarrow> conn_task list \<times> worker_end" where
  "serve_metrics = accept_loop (\<lambda>paths peer. Metrics_requests paths)"

text \<open>A QUIC endpoint that is closed yields no more connections, which ends the loop without an error.\<close>

fun doq_serve :: "('c \<Rightarrow> bytes list option) \<Rightarrow> 'c accept_event list \<Rightarrow> conn_task list \<times> worker_end" where
  "doq_serve handshake [] = ([], Running)"
| "doq_serve handshake (Incoming c peer # evs) =
     (let (ts, fin) = doq_serve handshake evs
      in ((case handshake c of Some streams \<Rightarrow> Dns_streams streams peer | None \<Rightarrow> Handshake_failed) # ts, fin))"
| "doq_serve handshake (Accept_error # evs) = ([], Stopped)"
| "doq_serve handshake (Accept_shutdown # evs) = ([], Stopped)"

text \<open>Running the spawned tasks one after the other, each with its own surroundings: how each ends.\<close>

fun http_connection ::
    "(nat \<Rightarrow> env) \<Rightarrow> ('s, 'w) net \<Rightarrow> (string \<Rightarrow> bytes option) \<Rightarrow> ip_addr \<Rightarrow> nat \<Rightarrow> (string \<times> string \<times> bytes) list \<Rightarrow>
       's server_state \<Rightarrow> 'w \<Rightarrow> stream_end \<times> 's server_state \<times> 'w" where
  "http_connection envs net decode ip i [] st w = (Closed, st, w)"
| "http_connection envs net decode ip i ((meth, target, body) # reqs) st w =
     (case handle_http (envs i) net decode meth target body ip st w of
        (Ok _, st1, w1) \<Rightarrow> http_connection envs net decode ip (i + 1) reqs st1 w1
      | (_, st1, w1) \<Rightarrow> (Crashed, st1, w1))"

fun run_task ::
    "(nat \<Rightarrow> env) \<Rightarrow> ('s, 'w) net \<Rightarrow> (string \<Rightarrow> bytes option) \<Rightarrow> conn_task \<Rightarrow> 's server_state \<Rightarrow> 'w \<Rightarrow>
       stream_end \<times> 's server_state \<times> 'w" where
  "run_task envs net decode (Dns_stream stream ip) st w = snd (handle_dns_stream envs net (\<lambda>_. True) ip 0 stream st w)"
| "run_task envs net decode (Dns_streams streams ip) st w = snd (handle_connection envs net (\<lambda>_. True) ip 0 streams st w)"
| "run_task envs net decode (Http_requests reqs ip) st w = http_connection envs net decode ip 0 reqs st w"
| "run_task envs net decode (Metrics_requests paths) st w = (Closed, st, w)"
| "run_task envs net decode Handshake_failed st w = (Closed, st, w)"

fun run_tasks ::
    "(nat \<Rightarrow> nat \<Rightarrow> env) \<Rightarrow> ('s, 'w) net \<Rightarrow> (string \<Rightarrow> bytes option) \<Rightarrow> nat \<Rightarrow> conn_task list \<Rightarrow> 's server_state \<Rightarrow> 'w \<Rightarrow>
       stream_end list \<times> 's server_state \<times> 'w" where
  "run_tasks envs net decode j [] st w = ([], st, w)"
| "run_tasks envs net decode j (t # ts) st w =
     (let (fin, st1, w1) = run_task (envs j) net decode t st w;
          (fins, st2, w2) = run_tasks envs net decode (j + 1) ts st1 w1
      in (fin # fins, st2, w2))"



section \<open>Properties\<close>

text \<open>A client's view of a stream: the messages framed on it.\<close>

function read_frames :: "bytes \<Rightarrow> bytes list option" where
  "read_frames stream =
     (if stream = [] then Some []
      else case read_frame stream of
        None \<Rightarrow> None
      | Some (m, rest) \<Rightarrow> map_option (\<lambda>ms. m # ms) (read_frames rest))"
  by pat_completeness auto
termination by (relation "measure length") (auto dest: read_frame_shorter)

declare read_frames.simps [simp del]

lemma frame_not_Nil [simp]: "frame m \<noteq> []"
  by (auto simp: frame_def dest: arg_cong [where f = length])

lemma read_frames_Nil [simp]: "read_frames [] = Some []"
  by (simp add: read_frames.simps)

lemma read_frames_frame: "length m < 65536 \<Longrightarrow> read_frames (frame m @ rest) = map_option (\<lambda>ms. m # ms) (read_frames rest)"
  by (simp add: read_frames.simps [of "frame m @ rest"] read_frame_frame)

text \<open>
  What the stream transports rely on: a service that answers every message its parser can take, and
  stays able to.
\<close>

locale request_service =
  fixes answer :: "nat \<Rightarrow> bytes \<Rightarrow> 'st \<Rightarrow> bytes option io_result \<times> 'st"
    and able :: "'st \<Rightarrow> bool"
    and takes :: "bytes \<Rightarrow> bool"
  assumes answers: "able s \<Longrightarrow> takes m \<Longrightarrow> \<exists>r s'. answer i m s = (Ok r, s') \<and> able s'"

text \<open>The answers to a sequence of messages, each taken in turn.\<close>

fun serve_all ::
    "(nat \<Rightarrow> bytes \<Rightarrow> 'st \<Rightarrow> bytes option io_result \<times> 'st) \<Rightarrow> nat \<Rightarrow> bytes list \<Rightarrow> 'st \<Rightarrow> (bytes option list \<times> 'st) option" where
  "serve_all answer i [] s = Some ([], s)"
| "serve_all answer i (m # ms) s =
     (case answer i m s of
        (Ok r, s1) \<Rightarrow> map_option (\<lambda>(rs, x). (r # rs, x)) (serve_all answer (i + 1) ms s1)
      | _ \<Rightarrow> None)"

context request_service
begin

lemma all_answered:
  "able s \<Longrightarrow> \<forall>m \<in> set ms. takes m \<Longrightarrow>
     \<exists>rs s'. serve_all answer i ms s = Some (rs, s') \<and> length rs = length ms \<and> able s'"
proof (induction ms arbitrary: i s)
  case (Cons m ms)
  from answers [OF Cons.prems(1), of m i] Cons.prems(2) obtain r s1 where r: "answer i m s = (Ok r, s1)" and s1: "able s1"
    by auto
  from Cons.IH [OF s1, of "i + 1"] Cons.prems(2) obtain rs s' where
    "serve_all answer (i + 1) ms s1 = Some (rs, s')" "length rs = length ms" "able s'" by auto
  then show ?case using r by simp
qed simp

end

text \<open>The resolution of requests over a stream, with the world it runs in, is such a service.\<close>

definition stream_answer ::
    "(nat \<Rightarrow> env) \<Rightarrow> ('s, 'w) net \<Rightarrow> ip_addr \<Rightarrow> nat \<Rightarrow> bytes \<Rightarrow> 's server_state \<times> 'w \<Rightarrow>
       bytes option io_result \<times> 's server_state \<times> 'w" where
  "stream_answer envs net ip i m s = state_resolve (envs i) net m ip Tcp (fst s) (snd s)"

definition can_serve :: "('s, 'w) net \<Rightarrow> 's server_state \<Rightarrow> bool" where
  "can_serve net st \<longleftrightarrow>
     harmless net \<and> server_inv st \<and> s_recursive st = None \<and> (\<forall>n. match_name (s_forward_rules st) n \<noteq> Some sentinel)"

definition serving :: "(nat \<Rightarrow> env) \<Rightarrow> ('s, 'w) net \<Rightarrow> 's server_state \<times> 'w \<Rightarrow> bool" where
  "serving envs net s \<longleftrightarrow> (\<forall>i. env_ok (envs i)) \<and> can_serve net (fst s)"

lemma can_serve_resolve:
  assumes "can_serve net st" and "env_ok e"
  shows "can_serve net (fst (snd (state_resolve e net m ip tr st w)))"
proof -
  have "server_inv st" using assms(1) by (simp only: can_serve_def)
  from state_resolve_inv [OF this assms(2)] state_resolve_setup assms(1) show ?thesis
    unfolding can_serve_def same_setup_def by metis
qed

lemma can_serve_Ok:
  assumes "can_serve net st" and "env_ok e" and "from_bytes m \<noteq> Panic"
  shows "\<exists>r. fst (state_resolve e net m ip tr st w) = Ok r"
  using assms by (intro state_resolve_Ok) (simp_all add: can_serve_def env_ok_def)

lemma can_serve_reached:
  assumes "run_server env lib a = Ok (st0, addr, tls, maddr)" and "(server_step net)\<^sup>*\<^sup>* st0 st"
    and "s_recursive st0 = None" and "\<And>n. match_name (s_forward_rules st0) n \<noteq> Some sentinel" and "harmless net"
  shows "can_serve net st"
  using reachable [OF assms(2) started_inv [OF assms(1)]] assms(3-5) by (simp add: can_serve_def same_setup_def)

interpretation tcp: request_service "stream_answer envs net ip" "serving envs net" "\<lambda>m. from_bytes m \<noteq> Panic" for envs net ip
proof
  fix s :: "'a server_state \<times> 'b" and m i
  assume s: "serving envs net s" and m: "from_bytes m \<noteq> Panic"
  let ?r = "state_resolve (envs i) net m ip Tcp (fst s) (snd s)"
  have c: "can_serve net (fst s)" and e: "env_ok (envs i)" using s by (simp_all add: serving_def)
  have "serving envs net (snd ?r)" using can_serve_resolve [OF c e] s by (simp add: serving_def)
  moreover obtain x where "fst ?r = Ok x" using can_serve_Ok [OF c e m] by blast
  ultimately show "\<exists>r s'. stream_answer envs net ip i m s = (Ok r, s') \<and> serving envs net s'"
    unfolding stream_answer_def by (metis prod.collapse)
qed

lemma read_exact_frame:
  assumes "length m < 65536"
  shows "read_exact 2 (frame m @ rest) = Some (be_bytes 2 (of_nat (length m) :: u16), m @ rest)"
    and "read_exact (unat (be_word (be_bytes 2 (of_nat (length m) :: u16)) :: u16)) (m @ rest) = Some (m, rest)"
  using assms by (simp_all add: frame_def read_exact_def unat_of_nat)

lemma read_frame_unfold:
  "handle_dns_stream envs net writable ip i (frame m @ rest) st w =
     (case state_resolve (envs i) net m ip Tcp st w of
        (Ok (Some resp), st1, w1) \<Rightarrow>
          if writable i then
            (let (out, fin, st2, w2) = handle_dns_stream envs net writable ip (i + 1) rest st1 w1
             in (frame resp @ out, fin, st2, w2))
          else ([], Broken, st1, w1)
      | (Ok None, st1, w1) \<Rightarrow> handle_dns_stream envs net writable ip (i + 1) rest st1 w1
      | (_, st1, w1) \<Rightarrow> ([], Crashed, st1, w1))"
  if "length m < 65536"
  by (subst handle_dns_stream.simps) (simp only: read_exact_frame [OF that] option.case prod.case)

lemma handle_closed: "handle_dns_stream envs net writable ip i [] st w = ([], Closed, st, w)"
  by (subst handle_dns_stream.simps) (simp add: read_exact_def)

fun replies :: "bytes option list \<Rightarrow> bytes list" where
  "replies [] = []"
| "replies (None # rs) = replies rs"
| "replies (Some r # rs) = r # replies rs"

lemma serve_all_Cons:
  assumes "serve_all (stream_answer envs net ip) i (m # msgs) (st, w) = Some (rs, x)"
  obtains ans st1 w1 rs' where "state_resolve (envs i) net m ip Tcp st w = (Ok ans, st1, w1)"
    and "serve_all (stream_answer envs net ip) (i + 1) msgs (st1, w1) = Some (rs', x)" and "rs = ans # rs'"
proof -
  obtain res st1 w1 where r: "state_resolve (envs i) net m ip Tcp st w = (res, st1, w1)" by (metis prod_cases3)
  then have r': "stream_answer envs net ip i m (st, w) = (res, st1, w1)" by (simp add: stream_answer_def)
  show thesis
  proof (cases res)
    case (Ok ans)
    then obtain rs' where "serve_all (stream_answer envs net ip) (i + 1) msgs (st1, w1) = Some (rs', x)" "rs = ans # rs'"
      using assms r' by auto
    with r Ok that show thesis by blast
  qed (use assms r' in simp_all)
qed

lemma stream_out:
  assumes "serve_all (stream_answer envs net ip) i msgs (st, w) = Some (rs, st', w')"
    and "\<forall>m \<in> set msgs. length m < 65536"
  shows "handle_dns_stream envs net (\<lambda>_. True) ip i (concat (map frame msgs)) st w
    = (concat (map frame (replies rs)), Closed, st', w')"
  using assms
proof (induction msgs arbitrary: i st w rs)
  case Nil
  then show ?case by (simp add: handle_closed)
next
  case (Cons m msgs)
  obtain ans st1 w1 rs' where r: "state_resolve (envs i) net m ip Tcp st w = (Ok ans, st1, w1)"
    and rs': "serve_all (stream_answer envs net ip) (i + 1) msgs (st1, w1) = Some (rs', st', w')" "rs = ans # rs'"
    by (rule serve_all_Cons [OF Cons.prems(1)])
  have "handle_dns_stream envs net (\<lambda>_. True) ip (i + 1) (concat (map frame msgs)) st1 w1
      = (concat (map frame (replies rs')), Closed, st', w')"
    using Cons.IH [OF rs'(1)] Cons.prems(2) by simp
  then show ?case
    using Cons.prems(2) rs'(2) r by (cases ans) (simp_all add: read_frame_unfold)
qed

lemma quic_out:
  assumes "serve_all (stream_answer envs net ip) i msgs (st, w) = Some (rs, st', w')"
    and "\<forall>m \<in> set msgs. length m < 65536"
  shows "handle_connection envs net (\<lambda>_. True) ip i (map frame msgs) st w
    = (map (\<lambda>r. case r of None \<Rightarrow> [] | Some b \<Rightarrow> frame b) rs, Closed, st', w')"
  using assms
proof (induction msgs arbitrary: i st w rs)
  case (Cons m msgs)
  obtain ans st1 w1 rs' where r: "state_resolve (envs i) net m ip Tcp st w = (Ok ans, st1, w1)"
    and rs': "serve_all (stream_answer envs net ip) (i + 1) msgs (st1, w1) = Some (rs', st', w')" "rs = ans # rs'"
    by (rule serve_all_Cons [OF Cons.prems(1)])
  have len: "length m < 65536" using Cons.prems(2) by simp
  note frame = read_exact_frame [OF len, of "[]", unfolded append_Nil2]
  show ?case
    using Cons.IH [OF rs'(1)] Cons.prems(2) rs'(2) r frame by (cases ans) simp_all
qed simp

lemma read_frames_concat: "\<forall>r \<in> set rs. length r < 65536 \<Longrightarrow> read_frames (concat (map frame rs)) = Some rs"
  by (induction rs) (simp_all add: read_frames_frame)



lemma serve_survives:
  assumes "server_inv st" and "\<And>j. visits_all (envs j)"
    and "\<forall>ev \<in> set evs. case ev of Datagram d ip port \<Rightarrow> from_bytes (take UDP_BUFFER d) \<noteq> Panic | _ \<Rightarrow> False"
  shows "fst (snd (serve envs i evs st)) = Running \<and> server_inv (snd (snd (serve envs i evs st)))"
  using assms(1,3)
proof (induction evs arbitrary: i st)
  case (Cons ev evs)
  obtain d ip port where ev: "ev = Datagram d ip port" "from_bytes (take UDP_BUFFER d) \<noteq> Panic"
    using Cons.prems(2) by (cases ev) auto
  have "cache_parses (s_cache st)" using Cons.prems(1) by (simp add: server_inv_def)
  from resolve_local_Ok [OF this assms(2) ev(2)] obtain r where
    "fst (resolve_local (envs i) (take UDP_BUFFER d) ip Udp st) = Ok r" by blast
  then obtain st1 where r: "resolve_local (envs i) (take UDP_BUFFER d) ip Udp st = (Ok r, st1)" by (metis prod.collapse)
  have "server_inv st1" using resolve_local_inv [OF Cons.prems(1)] r by (metis snd_conv)
  then have "fst (snd (serve envs (i + 1) evs st1)) = Running \<and> server_inv (snd (snd (serve envs (i + 1) evs st1)))"
    using Cons.IH Cons.prems(2) by simp
  then show ?case by (cases r) (simp_all add: ev r case_prod_beta)
qed simp

text \<open>
  C37: a UDP worker of any started server, after any operations, keeps running whatever datagrams
  arrive, as long as none of them panics the parser.
\<close>

theorem worker_survives:
  assumes "run_server env lib a = Ok (st0, addr, tls, maddr)" and "(server_step net)\<^sup>*\<^sup>* st0 st"
    and "\<And>j. visits_all (envs j)"
    and "\<forall>ev \<in> set evs. case ev of Datagram d ip port \<Rightarrow> from_bytes (take UDP_BUFFER d) \<noteq> Panic | _ \<Rightarrow> False"
  shows "fst (snd (serve envs i evs st)) = Running"
proof -
  have "server_inv st" using reachable [OF assms(2) started_inv [OF assms(1)]] by (rule conjunct1)
  from serve_survives [OF this assms(3,4)] show ?thesis by (rule conjunct1)
qed

theorem worker_survives_witness:
  "fst (snd (serve (\<lambda>_. calm_env) 0 [Datagram (sample_query 97) (V4 1) 53, Datagram [] (V4 2) 53] one_query_later)) = Running"
proof (rule worker_survives [OF sample_runs(2) one_query_later_reached])
  show "visits_all calm_env" using calm_env_ok by (simp add: env_ok_def)
  have "take UDP_BUFFER (sample_query 97) = sample_query 97" by (simp add: UDP_BUFFER_def sample_query_def)
  then show "\<forall>ev \<in> set [Datagram (sample_query 97) (V4 1) 53, Datagram [] (V4 2) 53].
      case ev of Datagram d ip port \<Rightarrow> from_bytes (take UDP_BUFFER d) \<noteq> Panic | _ \<Rightarrow> False"
    by (simp add: sample_parses) (simp add: from_bytes_def)
qed

text \<open>Whatever a connection sends, the server stays able to serve.\<close>

lemma can_serve_stream:
  assumes "\<And>i. env_ok (envs i)"
  shows "can_serve net st \<Longrightarrow> can_serve net (fst (snd (snd (handle_dns_stream envs net writable ip i stream st w))))"
proof (induction "length stream" arbitrary: i stream st w rule: less_induct)
  case less
  show ?case
  proof (cases "read_exact 2 stream")
    case None
    then show ?thesis using less.prems by (subst handle_dns_stream.simps) simp
  next
    case (Some x)
    obtain len_buf rest where x: "x = (len_buf, rest)" by fastforce
    show ?thesis
    proof (cases "read_exact (unat (be_word len_buf :: u16)) rest")
      case None
      then show ?thesis using less.prems Some x by (subst handle_dns_stream.simps) simp
    next
      case (Some y)
      obtain msg rest' where y: "y = (msg, rest')" by fastforce
      have shorter: "length rest' < length stream"
        using \<open>read_exact 2 stream = Some x\<close> Some x y by (auto simp: read_exact_def split: if_splits)
      obtain r st1 w1 where r: "state_resolve (envs i) net msg ip Tcp st w = (r, st1, w1)" by (metis prod_cases3)
      have "can_serve net st1" using can_serve_resolve [OF less.prems assms, of i msg ip Tcp w] r by simp
      then show ?thesis
        using less.hyps [OF shorter, of st1 "i + 1" w1] \<open>read_exact 2 stream = Some x\<close> Some x y r
        by (subst handle_dns_stream.simps) (simp add: case_prod_beta split: outcome.split option.split)
    qed
  qed
qed

lemma can_serve_connection:
  assumes "\<And>i. env_ok (envs i)"
  shows "can_serve net st \<Longrightarrow> can_serve net (fst (snd (snd (handle_connection envs net writable ip i streams st w))))"
proof (induction streams arbitrary: i st w)
  case (Cons stream streams)
  have step: "can_serve net (fst (snd (state_resolve (envs i) net msg ip Tcp st w)))" for msg
    by (rule can_serve_resolve [OF Cons.prems assms])
  have read: ?case if "read_exact 2 stream = Some (len_buf, rest)"
      and "read_exact (unat (be_word len_buf :: u16)) rest = Some (msg, rest')" for len_buf rest msg rest'
  proof -
    obtain r st1 w1 where r: "state_resolve (envs i) net msg ip Tcp st w = (r, st1, w1)" by (metis prod_cases3)
    then have "can_serve net st1" using step [of msg] by simp
    then show ?thesis using Cons.IH [of st1 "i + 1" w1] that r
      by (simp add: case_prod_beta split: outcome.split option.split)
  qed
  show ?case
  proof (cases "read_exact 2 stream")
    case (Some x)
    then show ?thesis
      using Cons.prems read by (cases x; cases "read_exact (unat (be_word (fst x) :: u16)) (snd x)") auto
  qed (use Cons.prems in simp)
qed simp

lemma handle_http_cases:
  obtains d where "handle_http e net decode meth target body ip st w = (Ok d, st, w)"
  | q where "http_query decode meth target body = Inr q"
      "snd (handle_http e net decode meth target body ip st w) = snd (state_resolve e net q ip Tcp st w)"
      "fst (handle_http e net decode meth target body ip st w)
         = obind (fst (state_resolve e net q ip Tcp st w)) (\<lambda>answer. Ok (case answer of
             Some dns_response \<Rightarrow> \<lparr>doh_status = 200, doh_body = dns_response\<rparr> | None \<Rightarrow> doh_error 400))"
proof (cases "MAX_BODY < length body \<or> (\<exists>status. http_query decode meth target body = Inl status)")
  case True
  then have "\<exists>d. handle_http e net decode meth target body ip st w = (Ok d, st, w)"
    by (auto simp: handle_http_def resolve_http_def)
  with that(1) show thesis by blast
next
  case False
  then obtain q where "http_query decode meth target body = Inr q" by (cases "http_query decode meth target body") auto
  then show thesis using False
    by (intro that(2) [of q]) (simp_all add: handle_http_def resolve_http_def case_prod_beta Let_def)
qed

lemma can_serve_http:
  assumes "\<And>i. env_ok (envs i)"
  shows "can_serve net st \<Longrightarrow> can_serve net (fst (snd (http_connection envs net decode ip i reqs st w))) \<and>
    ((\<forall>(meth, target, body) \<in> set reqs. \<forall>q. http_query decode meth target body = Inr q \<longrightarrow> from_bytes q \<noteq> Panic) \<longrightarrow>
       fst (http_connection envs net decode ip i reqs st w) = Closed)"
proof (induction reqs arbitrary: i st w)
  case (Cons req reqs)
  obtain meth target body where req: "req = (meth, target, body)" by (metis prod_cases3)
  obtain r st1 w1 where r: "handle_http (envs i) net decode meth target body ip st w = (r, st1, w1)" by (metis prod_cases3)
  have "can_serve net st1 \<and>
    ((\<forall>q. http_query decode meth target body = Inr q \<longrightarrow> from_bytes q \<noteq> Panic) \<longrightarrow> (\<exists>d. r = Ok d))"
  proof (rule handle_http_cases [of "envs i" net decode meth target body ip st w])
    fix d
    assume "handle_http (envs i) net decode meth target body ip st w = (Ok d, st, w)"
    then show ?thesis using r Cons.prems by simp
  next
    fix q
    assume q: "http_query decode meth target body = Inr q"
      and a: "snd (handle_http (envs i) net decode meth target body ip st w) = snd (state_resolve (envs i) net q ip Tcp st w)"
      and b: "fst (handle_http (envs i) net decode meth target body ip st w)
         = obind (fst (state_resolve (envs i) net q ip Tcp st w)) (\<lambda>answer. Ok (case answer of
             Some dns_response \<Rightarrow> \<lparr>doh_status = 200, doh_body = dns_response\<rparr> | None \<Rightarrow> doh_error 400))"
    have "snd (state_resolve (envs i) net q ip Tcp st w) = (st1, w1)" using a r by simp
    then have "can_serve net st1" using can_serve_resolve [OF Cons.prems assms, of i q ip Tcp w] by simp
    moreover have "\<exists>d. r = Ok d" if "from_bytes q \<noteq> Panic"
      using can_serve_Ok [OF Cons.prems assms that, of i ip Tcp w] b r by auto
    ultimately show ?thesis using q by simp
  qed
  then show ?case using Cons.IH [of st1 "i + 1" w1] req r by (cases r) auto
qed simp

text \<open>Whether no message of a connection panics the parser, and each is sent in full.\<close>

fun well_behaved :: "(string \<Rightarrow> bytes option) \<Rightarrow> conn_task \<Rightarrow> bool" where
  "well_behaved decode (Dns_stream stream ip) \<longleftrightarrow>
     (\<exists>msgs. stream = concat (map frame msgs) \<and> (\<forall>m \<in> set msgs. from_bytes m \<noteq> Panic \<and> length m < 65536))"
| "well_behaved decode (Dns_streams streams ip) \<longleftrightarrow>
     (\<exists>msgs. streams = map frame msgs \<and> (\<forall>m \<in> set msgs. from_bytes m \<noteq> Panic \<and> length m < 65536))"
| "well_behaved decode (Http_requests reqs ip) \<longleftrightarrow>
     (\<forall>(meth, target, body) \<in> set reqs. \<forall>q. http_query decode meth target body = Inr q \<longrightarrow> from_bytes q \<noteq> Panic)"
| "well_behaved decode _ \<longleftrightarrow> True"

lemma run_task_served:
  assumes "\<And>i. env_ok (envs i)" and "can_serve net st"
  shows "can_serve net (fst (snd (run_task envs net decode t st w))) \<and>
    (well_behaved decode t \<longrightarrow> fst (run_task envs net decode t st w) = Closed)"
proof -
  have s: "serving envs net (st, w)" using assms by (simp add: serving_def)
  have streams: "fst (snd (handle_dns_stream envs net (\<lambda>_. True) ip 0 (concat (map frame msgs)) st w)) = Closed \<and>
      fst (snd (handle_connection envs net (\<lambda>_. True) ip 0 (map frame msgs) st w)) = Closed"
    if m: "\<forall>m \<in> set msgs. from_bytes m \<noteq> Panic \<and> length m < 65536" for ip msgs
  proof -
    obtain rs s' where "serve_all (stream_answer envs net ip) 0 msgs (st, w) = Some (rs, s')"
      using tcp.all_answered [OF s, of msgs ip 0] m by auto
    then have rs: "serve_all (stream_answer envs net ip) 0 msgs (st, w) = Some (rs, fst s', snd s')" by simp
    have "\<forall>m \<in> set msgs. length m < 65536" using m by simp
    from stream_out [OF rs this] quic_out [OF rs this] show ?thesis by simp
  qed
  show ?thesis
  proof (cases t)
    case (Dns_stream stream ip)
    have "fst (snd (handle_dns_stream envs net (\<lambda>_. True) ip 0 stream st w)) = Closed" if "well_behaved decode t"
      using that streams [THEN conjunct1] unfolding Dns_stream well_behaved.simps by (elim exE conjE) (simp only:)
    then show ?thesis using can_serve_stream [OF assms, where writable = "\<lambda>_. True" and ip = ip and i = 0 and stream = stream and w = w] Dns_stream by simp
  next
    case (Dns_streams ss ip)
    have "fst (snd (handle_connection envs net (\<lambda>_. True) ip 0 ss st w)) = Closed" if "well_behaved decode t"
      using that streams [THEN conjunct2] unfolding Dns_streams well_behaved.simps by (elim exE conjE) (simp only:)
    then show ?thesis using can_serve_connection [OF assms, where writable = "\<lambda>_. True" and ip = ip and i = 0 and streams = ss and w = w] Dns_streams by simp
  next
    case (Http_requests reqs ip)
    show ?thesis unfolding Http_requests run_task.simps well_behaved.simps by (rule can_serve_http [OF assms])
  qed (use assms in simp_all)
qed

lemma run_tasks_served:
  assumes "\<And>j i. env_ok (envs j i)" and "can_serve net st"
  shows "list_all2 (\<lambda>t fin. well_behaved decode t \<longrightarrow> fin = Closed) ts (fst (run_tasks envs net decode j ts st w))"
  using assms(2)
proof (induction ts arbitrary: j st w)
  case (Cons t ts)
  from run_task_served [OF assms(1) Cons.prems] Cons.IH show ?case by (simp add: case_prod_beta Let_def)
qed simp


lemma list_all2_last:
  "list_all2 (\<lambda>t fin. P t \<longrightarrow> fin = x) [t1, t2] fins \<Longrightarrow> P t2 \<Longrightarrow> \<exists>fin. fins = [fin, x]"
  by (auto simp: list_all2_Cons1)


text \<open>
  C40: the two forms of a request over HTTPS are equivalent: a GET with the encoded query as its
  \<open>dns\<close> parameter does what a POST of the query does.
\<close>

theorem doh_get_post:
  assumes "decode v = Some q" and "CHR ''&'' \<notin> set v"
  shows "resolve_http e net decode ''GET'' (''/dns-query?dns='' @ v) body ip st w
    = resolve_http e net decode ''POST'' ''/dns-query'' q ip st w"
proof -
  have "split_once CHR ''?'' (''/dns-query?dns='' @ v) = Some (''/dns-query'', ''dns='' @ v)"
    "split_once CHR ''?'' ''/dns-query'' = None" by simp_all
  moreover have "extract_dns_param decode (''dns='' @ v) = Some q"
  proof -
    have "split_on CHR ''&'' (''dns='' @ v) = [''dns='' @ v]" using assms(2) by (intro split_on_no_sep) auto
    then show ?thesis using assms(1) by (simp add: extract_dns_param_def strip_prefix_def)
  qed
  ultimately have "http_query decode ''GET'' (''/dns-query?dns='' @ v) body = http_query decode ''POST'' ''/dns-query'' q"
    by (simp add: http_query_def)
  then show ?thesis by (simp add: resolve_http_def)
qed

theorem doh_get_post_witness:
  "resolve_http calm_env dead_net (\<lambda>v. if v = ''AAE'' then Some [0, 1] else None) ''GET'' (''/dns-query?dns='' @ ''AAE'') []
       (V4 1) one_query_later ()
     = resolve_http calm_env dead_net (\<lambda>v. if v = ''AAE'' then Some [0, 1] else None) ''POST'' ''/dns-query'' [0, 1]
       (V4 1) one_query_later ()"
  by (rule doh_get_post) simp_all

end
