(* ===== verification/Spec2Isabelle.thy ===== *)
theory Spec2Isabelle
  imports Accounting Zone_Transfer Single_Flight Server
begin

text \<open>
  A verification of \<^verbatim>\<open>mini-dns\<close>, a DNS server: an authoritative server with a cache, a forwarder, a
  recursive resolver, a blocklist, access control, rate limiting, DNS64 and DNSSEC signing.

  \<^bold>\<open>The program and its model.\<close>  A request is parsed (\<^verbatim>\<open>dns/packet.rs\<close>), passes the rate limiter and the
  blocklist, is answered from the zones (\<^verbatim>\<open>dns/resolver.rs\<close>), and, when its name is unknown and the
  client wants recursion, from the cache, by forwarding to an upstream, or by recursion from the
  root; \<^verbatim>\<open>state.rs\<close> composes these.  The theories follow the source files:

  \<^item> \<open>Prelude\<close>: outcomes (a value, an error, a panic), bytes, big-endian integers, checked reads;
    \<open>Std_Text\<close>, \<open>Std_Lowercase\<close>, \<open>Std_Parse\<close>: what the source uses of Rust's strings, UTF-8, number and
    address parsing; \<open>Dash_Map\<close>: concurrent maps as association lists.
  \<^item> \<open>Dns_Record\<close> (\<^verbatim>\<open>dns/record.rs\<close>, \<^verbatim>\<open>header.rs\<close>, \<^verbatim>\<open>question.rs\<close>, \<^verbatim>\<open>error.rs\<close>): the data of a message.
  \<^item> \<open>Decoder\<close> (the parser of \<^verbatim>\<open>dns/packet.rs\<close>) and \<open>Encoder\<close> (\<^verbatim>\<open>dns/encoder.rs\<close> and the writer of
    \<^verbatim>\<open>dns/packet.rs\<close>); \<open>Wire_Names\<close>, \<open>Wire_Roundtrip\<close>, \<open>Wire_Props\<close>: the parser inverts the encoder, name
    compression included; what the parser accepts, refuses and panics on; UDP truncation.
  \<^item> \<open>Zones\<close> (the tables of \<^verbatim>\<open>config.rs\<close>), \<open>Resolver\<close> (\<^verbatim>\<open>dns/resolver.rs\<close>): lookup with wildcards, the CNAME
    chain as a derivation, response codes.
  \<^item> \<open>Zone_File\<close> (the zone language and settings of \<^verbatim>\<open>config.rs\<close>), \<open>Blocklist\<close>, \<open>Acl\<close>, \<open>Cache\<close>, \<open>Rate_Limiter\<close>,
    \<open>Metrics\<close>, \<open>Dnssec\<close>: the source files of those names.
  \<^item> \<open>Network\<close>: datagrams, connections and a clock as a parameter over a world, and the framing of
    messages on a stream; \<open>Forwarder\<close> (\<^verbatim>\<open>forwarder.rs\<close>) and \<open>Recursive\<close> (\<^verbatim>\<open>recursive.rs\<close>) over it.
  \<^item> \<open>State\<close> (\<^verbatim>\<open>state.rs\<close>); \<open>Replay\<close>: replaying a shared response to one client, and caching times;
    \<open>Query_Path\<close>: the way of a query through the server; \<open>Signing\<close>: the signatures of a response;
    \<open>Zone_Transfer\<close>: zone transfers and DNS64; \<open>Single_Flight\<close>: the tasks of \<^verbatim>\<open>forward_ctx\<close>, leaders and
    followers, interleaved and cancelled at their suspension points.
  \<^item> \<open>Startup\<close> (\<^verbatim>\<open>main.rs\<close>, \<^verbatim>\<open>tls.rs\<close>): from the command line and the settings to the arguments of
    \<^verbatim>\<open>server::run\<close>.
  \<^item> \<open>Server_Inv\<close>: the operations on a server's state as a step relation, and its invariant from
    start-up on; \<open>Accounting\<close>: the counters over a run.
  \<^item> \<open>Server\<close> (\<^verbatim>\<open>server.rs\<close>, \<^verbatim>\<open>doh.rs\<close>, \<^verbatim>\<open>doq.rs\<close>): the UDP worker, the accept loops, streams, HTTPS
    requests and the metrics endpoint.

  \<^bold>\<open>What is shown.\<close>
  \<^item> The wire format: the parser inverts the encoder, a UDP reply parses to the packet or its
    truncation, and the parser panics at no input but one kind of RRSIG or NSEC record.
  \<^item> The answers: resolution in the zones meets an inductive specification, negative answers are as
    the zones say, loaded zones are well formed, signatures validate, transfers are complete and go
    to allowed clients only, and DNS64 embeds the addresses.
  \<^item> The stores: a cache hit is the last unexpired insertion, the limiter's bursts are bounded and its
    clean-up is invisible, access lists and blocklists decide as their entries say, counters are
    exact.
  \<^item> The network side: what a forwarded reply can be, that recursion always ends with a reply, and
    which names it never resolves.
  \<^item> The server: every started server keeps its invariant over all operations in any order; one that
    forwards answers every request that does not panic the parser, over every transport and in order;
    identical queries share one upstream query and no follower is left waiting; how far a panic
    reaches.

  Interfaces are locales: \<open>codec\<close> for what is written and read back, \<open>suffix_table\<close> and \<open>wildcard_walk\<close>
  for the searches along a name, \<open>response_store\<close> for the cache, \<open>step_invariant\<close> for the step
  relations, \<open>request_service\<close> for what the transports need of the query logic.

  \<^bold>\<open>Conventions.\<close>  Strings are lists of bytes; integers are words of their width; times are
  nanoseconds.  Index and slice errors, failed expectations and unwraps are the outcome \<open>Panic\<close>.
  Loops are structural recursions over what bounds them: the jumps of a name (\<open>MAX_POINTER_JUMPS\<close>),
  the links of a CNAME chain (\<open>MAX_CNAME_CHAIN\<close>), the rounds of a recursion (\<open>MAX_DELEGATION_DEPTH\<close>),
  the stale datagrams of a socket (\<open>MAX_STALE\<close>); these are the bounds of the source, so no fuel is added.

  Streams and connections are the finite lists of what a client sends; the loops over them are
  structural or shorten the stream.  Tasks of \<open>Single_Flight\<close> are steps of an inductive relation, so
  every interleaving and cancellation is covered; elsewhere a call of the query logic is one step.

  \<^bold>\<open>Parameters.\<close>  The file system, the TOML parser, Ed25519 and key generation, the TLS library with
  its handshakes, QUIC, HTTP and Base64, the clocks, the iteration order of hash maps, and the
  network (record \<open>net\<close>).

  \<^bold>\<open>Not modelled.\<close>  The asynchronous runtime with its thread pinning, timers and signals: when the
  periodic clean-up, a reload or the shutdown happens is left open, what they do is modelled, the
  grace period apart.  Command-line parsing, logging, and socket options.  Semaphores only delay a
  query and are left out.
\<close>

end
